theory Spec2Isabelle
  imports Main "HOL-Library.Word"
begin

unbundle bit_operations_syntax

text \<open>
  A model of the short-url service of \<open>index.js\<close> with the table of \<open>mysql.sql\<close>: the hash
  and its URL-safe encoding, the store, the two caches, the resolver \<open>getURL\<close> and the
  mapping writer \<open>putURL\<close> with their handlers \<open>get\<close> and \<open>put\<close>, followed by the
  properties of the claims C1 to C10.
\<close>

section \<open>Strings and bytes\<close>

text \<open>
  A JavaScript string is modelled as a \<^typ>\<open>string\<close> whose characters are the code units
  U+0000 .. U+00FF. A value that may be \<open>undefined\<close> or \<open>null\<close> is a
  \<^typ>\<open>string option\<close>; \<open>None\<close> stands for both. The store's \<open>NULL\<close> is \<open>None\<close> as well
  (the driver sends \<open>undefined\<close> and \<open>null\<close> parameters as \<open>NULL\<close>).
\<close>

type_synonym byte = "8 word"
type_synonym u32 = "32 word"

text \<open>The truth value JavaScript gives to a string, \<open>undefined\<close> or \<open>null\<close> in a condition.\<close>

definition truthy :: "string option \<Rightarrow> bool" where
  "truthy v = (case v of None \<Rightarrow> False | Some s \<Rightarrow> s \<noteq> [])"

text \<open>\<open>String.prototype.trim\<close>: the white space and line terminators below U+0100.\<close>

definition is_ws :: "char \<Rightarrow> bool" where
  "is_ws c = (c \<in> set [CHR 0x09, CHR 0x0A, CHR 0x0B, CHR 0x0C, CHR 0x0D, CHR 0x20, CHR 0xA0])"

definition trim :: "string \<Rightarrow> string" where
  "trim s = rev (dropWhile is_ws (rev (dropWhile is_ws s)))"

text \<open>\<open>s.replace(/^\//, '')\<close>: one slash is removed, and only at position 0.\<close>

fun strip_slash :: "string \<Rightarrow> string" where
  "strip_slash (c # s) = (if c = CHR ''/'' then s else c # s)"
| "strip_slash [] = []"

text \<open>\<open>/\//.test(s)\<close>\<close>

definition has_slash :: "string \<Rightarrow> bool" where
  "has_slash s = (CHR ''/'' \<in> set s)"

text \<open>The UTF-8 bytes of a string of code units below U+0100.\<close>

definition utf8_char :: "char \<Rightarrow> byte list" where
  "utf8_char c =
     (let b = (of_char c :: byte)
      in if b < 0x80 then [b] else [0xC0 OR drop_bit 6 b, 0x80 OR (b AND 0x3F)])"

definition utf8 :: "string \<Rightarrow> byte list" where
  "utf8 s = concat (map utf8_char s)"

section \<open>SHA-256, base64 and the URL-safe alphabet\<close>

text \<open>
  \<open>crypto.createHash('sha256')\<close> is FIPS 180-4 SHA-256: the message is padded to a multiple
  of 64 bytes and each block is compressed into eight 32-bit words.
\<close>

definition rotr :: "nat \<Rightarrow> u32 \<Rightarrow> u32" where
  "rotr n x = drop_bit n x OR push_bit (32 - n) x"

definition Ch :: "u32 \<Rightarrow> u32 \<Rightarrow> u32 \<Rightarrow> u32" where
  "Ch x y z = (x AND y) XOR (NOT x AND z)"

definition Maj :: "u32 \<Rightarrow> u32 \<Rightarrow> u32 \<Rightarrow> u32" where
  "Maj x y z = (x AND y) XOR (x AND z) XOR (y AND z)"

definition bsig0 :: "u32 \<Rightarrow> u32" where
  "bsig0 x = rotr 2 x XOR rotr 13 x XOR rotr 22 x"

definition bsig1 :: "u32 \<Rightarrow> u32" where
  "bsig1 x = rotr 6 x XOR rotr 11 x XOR rotr 25 x"

definition ssig0 :: "u32 \<Rightarrow> u32" where
  "ssig0 x = rotr 7 x XOR rotr 18 x XOR drop_bit 3 x"

definition ssig1 :: "u32 \<Rightarrow> u32" where
  "ssig1 x = rotr 17 x XOR rotr 19 x XOR drop_bit 10 x"

definition K256 :: "u32 list" where
  "K256 = [
   0x428A2F98, 0x71374491, 0xB5C0FBCF, 0xE9B5DBA5, 0x3956C25B, 0x59F111F1, 0x923F82A4, 0xAB1C5ED5,
   0xD807AA98, 0x12835B01, 0x243185BE, 0x550C7DC3, 0x72BE5D74, 0x80DEB1FE, 0x9BDC06A7, 0xC19BF174,
   0xE49B69C1, 0xEFBE4786, 0x0FC19DC6, 0x240CA1CC, 0x2DE92C6F, 0x4A7484AA, 0x5CB0A9DC, 0x76F988DA,
   0x983E5152, 0xA831C66D, 0xB00327C8, 0xBF597FC7, 0xC6E00BF3, 0xD5A79147, 0x06CA6351, 0x14292967,
   0x27B70A85, 0x2E1B2138, 0x4D2C6DFC, 0x53380D13, 0x650A7354, 0x766A0ABB, 0x81C2C92E, 0x92722C85,
   0xA2BFE8A1, 0xA81A664B, 0xC24B8B70, 0xC76C51A3, 0xD192E819, 0xD6990624, 0xF40E3585, 0x106AA070,
   0x19A4C116, 0x1E376C08, 0x2748774C, 0x34B0BCB5, 0x391C0CB3, 0x4ED8AA4A, 0x5B9CCA4F, 0x682E6FF3,
   0x748F82EE, 0x78A5636F, 0x84C87814, 0x8CC70208, 0x90BEFFFA, 0xA4506CEB, 0xBEF9A3F7, 0xC67178F2]"

definition H256 :: "u32 list" where
  "H256 = [0x6A09E667, 0xBB67AE85, 0x3C6EF372, 0xA54FF53A,
           0x510E527F, 0x9B05688C, 0x1F83D9AB, 0x5BE0CD19]"

text \<open>Big-endian conversions between bytes and words.\<close>

fun be32 :: "byte list \<Rightarrow> u32 list" where
  "be32 (a # b # c # d # r) =
     (push_bit 24 (ucast a) OR push_bit 16 (ucast b) OR push_bit 8 (ucast c) OR ucast d) # be32 r"
| "be32 _ = []"

definition bytes32 :: "u32 \<Rightarrow> byte list" where
  "bytes32 w = [ucast (drop_bit 24 w), ucast (drop_bit 16 w), ucast (drop_bit 8 w), ucast w]"

definition bytes64 :: "64 word \<Rightarrow> byte list" where
  "bytes64 w = map (\<lambda>i. ucast (drop_bit (8 * i) w)) [7, 6, 5, 4, 3, 2, 1, 0]"

text \<open>Padding: the bit 1, zeros up to 56 modulo 64, and the length in bits on 64 bits.\<close>

definition pad :: "byte list \<Rightarrow> byte list" where
  "pad m = m @ [0x80] @ replicate ((119 - length m mod 64) mod 64) 0
             @ bytes64 (8 * of_nat (length m))"

fun blocks :: "nat \<Rightarrow> byte list \<Rightarrow> byte list list" where
  "blocks 0 bs = []"
| "blocks (Suc n) bs = take 64 bs # blocks n (drop 64 bs)"

text \<open>The message schedule, kept with the newest word first.\<close>

fun sched :: "nat \<Rightarrow> u32 list \<Rightarrow> u32 list" where
  "sched 0 w = w"
| "sched (Suc n) w = sched n ((ssig1 (w ! 1) + w ! 6 + ssig0 (w ! 14) + w ! 15) # w)"

fun round :: "u32 list \<Rightarrow> u32 \<times> u32 \<Rightarrow> u32 list" where
  "round [a, b, c, d, e, f, g, h] (k, w) =
     (let t1 = h + bsig1 e + Ch e f g + k + w;
          t2 = bsig0 a + Maj a b c
      in [t1 + t2, a, b, c, d + t1, e, f, g])"
| "round v _ = v"

definition compress :: "u32 list \<Rightarrow> byte list \<Rightarrow> u32 list" where
  "compress hs blk =
     (let w = rev (sched 48 (rev (be32 blk)));
          v = foldl round hs (zip K256 w)
      in map2 (+) hs v)"

definition sha256_digest :: "byte list \<Rightarrow> byte list" where
  "sha256_digest m =
     (let p = pad m
      in concat (map bytes32 (foldl compress H256 (blocks (length p div 64) p))))"

text \<open>\<open>sha256(text)\<close> of the source: the digest of the UTF-8 bytes of the text.\<close>

definition sha256 :: "string \<Rightarrow> byte list" where
  "sha256 text = sha256_digest (utf8 text)"

text \<open>\<open>Buffer.toString('base64')\<close>: the standard alphabet, padded with \<open>=\<close>.\<close>

definition b64chars :: string where
  "b64chars = ''ABCDEFGHIJKLMNOPQRSTUVWXYZabcdefghijklmnopqrstuvwxyz0123456789+/''"

definition b64 :: "byte \<Rightarrow> char" where
  "b64 x = b64chars ! unat (x AND 63)"

fun base64 :: "byte list \<Rightarrow> string" where
  "base64 (a # b # c # r) =
     [b64 (drop_bit 2 a), b64 (push_bit 4 a OR drop_bit 4 b),
      b64 (push_bit 2 b OR drop_bit 6 c), b64 c] @ base64 r"
| "base64 [a, b] =
     [b64 (drop_bit 2 a), b64 (push_bit 4 a OR drop_bit 4 b), b64 (push_bit 2 b), CHR ''='']"
| "base64 [a] = [b64 (drop_bit 2 a), b64 (push_bit 4 a), CHR ''='', CHR ''='']"
| "base64 [] = []"

text \<open>\<open>urlSafe(base64)\<close>: \<open>+\<close> becomes \<open>-\<close>, \<open>/\<close> becomes \<open>_\<close>, \<open>=\<close> is dropped.\<close>

definition urlSafe_char :: "char \<Rightarrow> string" where
  "urlSafe_char c =
     (if c = CHR ''+'' then ''-'' else if c = CHR ''/'' then ''_''
      else if c = CHR ''='' then [] else [c])"

definition urlSafe :: "string \<Rightarrow> string" where
  "urlSafe s = concat (map urlSafe_char s)"

text \<open>\<open>mapping.long_id\<close> as \<open>putURL\<close> computes it from the url.\<close>

definition long_id_of :: "string \<Rightarrow> string" where
  "long_id_of u = urlSafe (base64 (sha256 u))"

section \<open>The store: table \<open>url_mapping\<close>\<close>

text \<open>
  A row of the table of \<open>mysql.sql\<close>. \<open>short_id\<close>, \<open>url\<close> and \<open>origin_url\<close> may be
  \<open>NULL\<close>; \<open>path\<close> may not. Times are the values of \<open>now()\<close>.
\<close>

record url_mapping =
  row_id :: nat
  row_short_id :: "string option"
  row_path :: string
  row_url :: "string option"
  row_origin_url :: "string option"
  row_create_time :: nat
  row_last_update_time :: nat

text \<open>
  The columns are compared with the collation \<open>utf8mb4_general_ci\<close>: letters compare
  without regard to case, and \<open>=\<close>, the unique indexes and \<open>order by\<close> ignore trailing
  spaces. \<open>ci_weight\<close> is the weight of a character, the code of its upper-case form;
  \<open>pad_le\<close> compares two lists of weights after padding the shorter one with the weight of
  a space. The folding of accented letters is not modelled, and neither are the length
  limits of the columns.
\<close>

definition ci_weight :: "char \<Rightarrow> nat" where
  "ci_weight c = (let n = of_char c in if 97 \<le> n \<and> n \<le> 122 then n - 32 else n)"

fun pad_le :: "nat list \<Rightarrow> nat list \<Rightarrow> bool" where
  "pad_le [] [] = True"
| "pad_le [] (y # ys) = (32 < y \<or> (32 = y \<and> pad_le [] ys))"
| "pad_le (x # xs) [] = (x < 32 \<or> (x = 32 \<and> pad_le xs []))"
| "pad_le (x # xs) (y # ys) = (x < y \<or> (x = y \<and> pad_le xs ys))"

definition sql_le :: "string \<Rightarrow> string \<Rightarrow> bool" where
  "sql_le a b = pad_le (map ci_weight a) (map ci_weight b)"

definition sql_eq :: "string \<Rightarrow> string \<Rightarrow> bool" where
  "sql_eq a b = (sql_le a b \<and> sql_le b a)"

text \<open>
  \<open>sql_like pat s\<close> is \<open>s like pat\<close>: \<open>%\<close> matches any run of characters, \<open>_\<close> any one
  character, a backslash makes the next pattern character literal (a backslash that ends
  the pattern stands for itself); other characters match by weight. Trailing spaces
  count.
\<close>

fun sql_like :: "string \<Rightarrow> string \<Rightarrow> bool" where
  "sql_like [] s = (s = [])"
| "sql_like (p # ps) s =
     (if p = CHR ''%'' then list_ex (\<lambda>n. sql_like ps (drop n s)) [0..<Suc (length s)]
      else if p = CHR ''_'' then (case s of [] \<Rightarrow> False | c # cs \<Rightarrow> sql_like ps cs)
      else if p = CHR 0x5C then
        (case ps of
           [] \<Rightarrow> (case s of [c] \<Rightarrow> c = p | _ \<Rightarrow> False)
         | q # qs \<Rightarrow> (case s of [] \<Rightarrow> False
                      | c # cs \<Rightarrow> ci_weight c = ci_weight q \<and> sql_like qs cs))
      else (case s of [] \<Rightarrow> False | c # cs \<Rightarrow> ci_weight c = ci_weight p \<and> sql_like ps cs))"

text \<open>\<open>order by short_id\<close>, ascending; \<open>NULL\<close> sorts first.\<close>

definition row_le :: "url_mapping \<Rightarrow> url_mapping \<Rightarrow> bool" where
  "row_le a b =
     (case row_short_id a of None \<Rightarrow> True
      | Some x \<Rightarrow> (case row_short_id b of None \<Rightarrow> False | Some y \<Rightarrow> sql_le x y))"

fun insort_row :: "url_mapping \<Rightarrow> url_mapping list \<Rightarrow> url_mapping list" where
  "insort_row a [] = [a]"
| "insort_row a (b # bs) = (if row_le a b then a # b # bs else b # insort_row a bs)"

definition order_by_short_id :: "url_mapping list \<Rightarrow> url_mapping list" where
  "order_by_short_id rs = foldr insort_row rs []"

text \<open>\<open>select * from url_mapping where path = ?\<close>\<close>

definition select_by_path :: "url_mapping list \<Rightarrow> string \<Rightarrow> url_mapping list" where
  "select_by_path tbl p = filter (\<lambda>r. sql_eq (row_path r) p) tbl"

text \<open>\<open>select * from url_mapping where short_id like concat(?, '%') order by short_id\<close>\<close>

definition select_by_short_id_like :: "url_mapping list \<Rightarrow> string \<Rightarrow> url_mapping list" where
  "select_by_short_id_like tbl p =
     order_by_short_id
       (filter (\<lambda>r. case row_short_id r of None \<Rightarrow> False | Some x \<Rightarrow> sql_like (p @ ''%'') x) tbl)"

text \<open>\<open>queryOneAsync\<close>: the first row of the result, or \<open>null\<close>.\<close>

definition queryOne :: "url_mapping list \<Rightarrow> url_mapping option" where
  "queryOne r = (case r of [] \<Rightarrow> None | m # _ \<Rightarrow> Some m)"

text \<open>\<open>update url_mapping set url = ?, last_update_time = now() where id = ?\<close>\<close>

definition update_url :: "nat \<Rightarrow> string option \<Rightarrow> nat \<Rightarrow> url_mapping list \<Rightarrow> url_mapping list" where
  "update_url now u i tbl =
     map (\<lambda>r. if row_id r = i then r\<lparr>row_url := u, row_last_update_time := now\<rparr> else r) tbl"

text \<open>What a query throws.\<close>

datatype exn = ER_DUP_ENTRY | ER_BAD_NULL_ERROR | TypeError

text \<open>The unique indexes \<open>path_unq\<close> and \<open>short_id_unq\<close>; \<open>NULL\<close> never conflicts.\<close>

definition dup_entry :: "url_mapping list \<Rightarrow> string option \<Rightarrow> string \<Rightarrow> bool" where
  "dup_entry tbl sid p =
     list_ex (\<lambda>r. sql_eq (row_path r) p \<or>
                  (case sid of None \<Rightarrow> False
                   | Some x \<Rightarrow> (case row_short_id r of None \<Rightarrow> False | Some y \<Rightarrow> sql_eq y x))) tbl"

section \<open>The process state\<close>

text \<open>
  The table with its \<open>AUTO_INCREMENT\<close> counter, the Distributed Cache (Redis), the Local
  Cache, and the work that was started and not awaited. A handler is one step on this
  state: nothing else runs between its awaits. The Local Cache is a map, its eviction is
  not modelled.
\<close>

datatype task =
    RedisDel string
  | CacheDel string
  | RedisSet string string
  | CacheSet string string

record state =
  rows :: "url_mapping list"
  auto_increment :: nat
  redis :: "string \<rightharpoonup> string"
  cache :: "string \<rightharpoonup> string"
  pending :: "task list"

text \<open>\<open>insert into url_mapping (...) values (...)\<close>; the counter is used up on failure too.\<close>

definition insert_row ::
  "nat \<Rightarrow> string option \<Rightarrow> string option \<Rightarrow> string option \<Rightarrow> string option \<Rightarrow> state
     \<Rightarrow> exn option \<times> state" where
  "insert_row now sid p u ou s =
     (case p of
        None \<Rightarrow> (Some ER_BAD_NULL_ERROR, s)
      | Some p' \<Rightarrow>
          if dup_entry (rows s) sid p'
          then (Some ER_DUP_ENTRY, s\<lparr>auto_increment := Suc (auto_increment s)\<rparr>)
          else (None,
                s\<lparr>rows := rows s @
                     [\<lparr>row_id = auto_increment s, row_short_id = sid, row_path = p',
                       row_url = u, row_origin_url = ou,
                       row_create_time = now, row_last_update_time = now\<rparr>],
                   auto_increment := Suc (auto_increment s)\<rparr>))"

text \<open>
  A promise that is not awaited runs after the handler has gone on: the command sent to
  Redis is carried out later, and the callback chained to it later still. \<open>run_next\<close>
  carries out the oldest entry of \<open>pending\<close>.
\<close>

fun run_task :: "task \<Rightarrow> state \<Rightarrow> state" where
  "run_task (RedisDel p) s = s\<lparr>redis := (redis s)(p := None), pending := pending s @ [CacheDel p]\<rparr>"
| "run_task (CacheDel p) s = s\<lparr>cache := (cache s)(p := None)\<rparr>"
| "run_task (RedisSet p v) s = s\<lparr>redis := (redis s)(p \<mapsto> v), pending := pending s @ [CacheSet p v]\<rparr>"
| "run_task (CacheSet p v) s = s\<lparr>cache := (cache s)(p \<mapsto> v)\<rparr>"

definition run_next :: "state \<Rightarrow> state" where
  "run_next s = (case pending s of [] \<Rightarrow> s | t # ts \<Rightarrow> run_task t (s\<lparr>pending := ts\<rparr>))"

text \<open>The work a queue still holds: a Redis command leaves a callback behind.\<close>

fun task_weight :: "task \<Rightarrow> nat" where
  "task_weight (RedisDel p) = 2"
| "task_weight (CacheDel p) = 1"
| "task_weight (RedisSet p v) = 2"
| "task_weight (CacheSet p v) = 1"

definition queue_weight :: "state \<Rightarrow> nat" where
  "queue_weight s = sum_list (map task_weight (pending s))"

text \<open>All pending work carried out, oldest first.\<close>

function settle :: "state \<Rightarrow> state" where
  "settle s = (if pending s = [] then s else settle (run_next s))"
  by pat_completeness auto
termination
proof (relation "measure queue_weight")
  show "wf (measure queue_weight)" by simp
next
  fix s :: state
  assume "pending s \<noteq> []"
  then obtain t ts where p: "pending s = t # ts" by (cases "pending s") auto
  then have "queue_weight (run_next s) < queue_weight s"
    by (cases t) (simp_all add: run_next_def queue_weight_def)
  then show "(run_next s, s) \<in> measure queue_weight" by simp
qed

declare settle.simps [simp del]

text \<open>The entries of \<open>pending\<close> that are callbacks of a Redis command.\<close>

fun is_callback :: "task \<Rightarrow> bool" where
  "is_callback (CacheDel p) = True"
| "is_callback (CacheSet p v) = True"
| "is_callback (RedisDel p) = False"
| "is_callback (RedisSet p v) = False"

section \<open>The resolver: \<open>getURL\<close> and \<open>get\<close>\<close>

text \<open>
  \<open>getURL\<close>: the result is \<open>None\<close> for \<open>undefined\<close> and \<open>null\<close>. The Local Cache is set at
  once after a hit in Redis; after a hit in the store the population is started and not
  awaited.
\<close>

definition getURL :: "string \<Rightarrow> state \<Rightarrow> string option \<times> state" where
  "getURL p s =
     (let location = cache s p in
      if truthy location then (location, s)
      else
        let location = redis s p in
        if truthy location then (location, s\<lparr>cache := (cache s)(p := location)\<rparr>)
        else
          let r = queryOne (select_by_path (rows s) p);
              location = (case r of None \<Rightarrow> location | Some m \<Rightarrow> row_url m)
          in case location of
               None \<Rightarrow> (location, s)
             | Some l \<Rightarrow>
                 if l \<noteq> [] then (location, s\<lparr>pending := pending s @ [RedisSet p l]\<rparr>)
                 else (location, s))"

text \<open>\<open>get\<close>, from the path of the request on: 302 with the location, or 404.\<close>

datatype get_response = Found302 string | NotFound404

definition get :: "string \<Rightarrow> state \<Rightarrow> get_response \<times> state" where
  "get p s =
     (let (location, s') = getURL p s
      in case location of
           None \<Rightarrow> (NotFound404, s')
         | Some l \<Rightarrow> if l \<noteq> [] then (Found302 l, s') else (NotFound404, s'))"

section \<open>The mapping writer: \<open>putURL\<close> and \<open>put\<close>\<close>

text \<open>
  The two messages of \<open>putURL\<close>: "the given path must contain /" and "path and url must
  not both be empty".
\<close>

datatype error_text = PathNeedsSlash | PathAndUrlEmpty

text \<open>
  The object \<open>putURL\<close> works on. It starts as the request item and may be replaced by a
  row of the table, which carries \<open>id\<close>, \<open>origin_url\<close> and the times.
\<close>

record mapping =
  path :: "string option"
  url :: "string option"
  error :: "error_text option"
  long_id :: "string option"
  short_id :: "string option"
  id' :: "nat option"
  origin_url :: "string option"
  create_time :: "nat option"
  last_update_time :: "nat option"

text \<open>A request item with the given \<open>path\<close> and \<open>url\<close> and no other field.\<close>

definition request :: "string option \<Rightarrow> string option \<Rightarrow> mapping" where
  "request p u =
     \<lparr>path = p, url = u, error = None, long_id = None, short_id = None, id' = None,
      origin_url = None, create_time = None, last_update_time = None\<rparr>"

text \<open>A row as the object the driver returns for it.\<close>

definition of_row :: "url_mapping \<Rightarrow> mapping" where
  "of_row m =
     \<lparr>path = Some (row_path m), url = row_url m, error = None, long_id = None,
      short_id = row_short_id m, id' = Some (row_id m), origin_url = row_origin_url m,
      create_time = Some (row_create_time m),
      last_update_time = Some (row_last_update_time m)\<rparr>"

text \<open>Lines 70 to 75: each field is rewritten only when it is truthy.\<close>

definition normalize :: "mapping \<Rightarrow> mapping" where
  "normalize mapping =
     (let mapping = (if truthy (path mapping)
                     then mapping\<lparr>path := map_option (\<lambda>p. trim (strip_slash p)) (path mapping)\<rparr>
                     else mapping)
      in if truthy (url mapping) then mapping\<lparr>url := map_option trim (url mapping)\<rparr>
         else mapping)"

text \<open>The loop of lines 97 to 102: every row with the same url replaces the mapping.\<close>

fun reuse :: "url_mapping list \<Rightarrow> mapping \<Rightarrow> mapping" where
  "reuse [] mapping = mapping"
| "reuse (m # r) mapping = reuse r (if row_url m = url mapping then of_row m else mapping)"

text \<open>Lines 77 to 88: the branch of a truthy path.\<close>

definition put_path :: "nat \<Rightarrow> mapping \<Rightarrow> string \<Rightarrow> state \<Rightarrow> (exn + mapping) \<times> state" where
  "put_path now mapping p s =
     (case queryOne (select_by_path (rows s) p) of
        Some m \<Rightarrow> (Inr mapping, s\<lparr>rows := update_url now (url mapping) (row_id m) (rows s)\<rparr>)
      | None \<Rightarrow>
          if has_slash p
          then (case insert_row now None (Some p) (url mapping) (url mapping) s of
                  (Some e, s') \<Rightarrow> (Inl e, s')
                | (None, s') \<Rightarrow> (Inr mapping, s'))
          else (Inr (mapping\<lparr>error := Some PathNeedsSlash\<rparr>), s))"

text \<open>Lines 90 to 108: the branch of a falsy path and a truthy url.\<close>

definition put_url :: "nat \<Rightarrow> nat \<Rightarrow> mapping \<Rightarrow> string \<Rightarrow> state \<Rightarrow> (exn + mapping) \<times> state" where
  "put_url minShortIdLength now mapping u s =
     (let lid = long_id_of u;
          sid = take minShortIdLength lid;
          mapping = mapping\<lparr>long_id := Some lid, short_id := Some sid, path := Some sid\<rparr>;
          r = select_by_short_id_like (rows s) sid;
          found =
            (if r \<noteq> [] then
               (case row_short_id (last r) of
                  None \<Rightarrow> Inl TypeError
                | Some l \<Rightarrow>
                    let sid = take (length l) lid
                    in Inr (reuse r (mapping\<lparr>short_id := Some sid, path := Some sid\<rparr>)))
             else Inr mapping)
      in case found of
           Inl e \<Rightarrow> (Inl e, s)
         | Inr mapping \<Rightarrow>
             if id' mapping = None
             then (case insert_row now (short_id mapping) (path mapping)
                          (url mapping) (url mapping) s of
                     (Some e, s') \<Rightarrow> (Inl e, s')
                   | (None, s') \<Rightarrow> (Inr mapping, s'))
             else (Inr mapping, s))"

text \<open>Lines 112 to 114: when the path is truthy the invalidation is started, not awaited.\<close>

definition invalidate :: "mapping \<Rightarrow> state \<Rightarrow> state" where
  "invalidate mapping s =
     (case path mapping of
        None \<Rightarrow> s
      | Some p \<Rightarrow> if p \<noteq> [] then s\<lparr>pending := pending s @ [RedisDel p]\<rparr> else s)"

text \<open>
  \<open>putURL\<close>, with \<open>props.minShortIdLength\<close> and the value of \<open>now()\<close> as parameters:
  \<open>if (mapping.path) ... else if (mapping.url) ... else ...\<close>, then the invalidation. A
  query that throws ends the function before line 112.
\<close>

definition putURL :: "nat \<Rightarrow> nat \<Rightarrow> mapping \<Rightarrow> state \<Rightarrow> (exn + mapping) \<times> state" where
  "putURL minShortIdLength now mapping0 s =
     (let mapping = normalize mapping0;
          (res, s') =
            (case path mapping of
               Some p \<Rightarrow>
                 if p \<noteq> [] then put_path now mapping p s
                 else (case url mapping of
                         Some u \<Rightarrow>
                           if u \<noteq> [] then put_url minShortIdLength now mapping u s
                           else (Inr (mapping\<lparr>error := Some PathAndUrlEmpty\<rparr>), s)
                       | None \<Rightarrow> (Inr (mapping\<lparr>error := Some PathAndUrlEmpty\<rparr>), s))
             | None \<Rightarrow>
                 (case url mapping of
                    Some u \<Rightarrow>
                      if u \<noteq> [] then put_url minShortIdLength now mapping u s
                      else (Inr (mapping\<lparr>error := Some PathAndUrlEmpty\<rparr>), s)
                  | None \<Rightarrow> (Inr (mapping\<lparr>error := Some PathAndUrlEmpty\<rparr>), s)))
      in case res of
           Inl e \<Rightarrow> (Inl e, s')
         | Inr m \<Rightarrow> (Inr m, invalidate m s'))"

text \<open>
  \<open>put\<close>: the items of the list are written one after the other (one of the orders
  \<open>Promise.all\<close> allows). When an item throws, the other items still run, the promise of
  \<open>put\<close> is rejected and the server answers 500 with an empty body; otherwise the answer
  is the list of \<open>path\<close>, \<open>url\<close> and \<open>error\<close> of the results, in the order of the items.
\<close>

fun putAll :: "nat \<Rightarrow> nat \<Rightarrow> mapping list \<Rightarrow> state \<Rightarrow> (exn + mapping) list \<times> state" where
  "putAll k now [] s = ([], s)"
| "putAll k now (m # ms) s =
     (let (r, s1) = putURL k now m s;
          (rs, s2) = putAll k now ms s1
      in (r # rs, s2))"

type_synonym item_result = "string option \<times> string option \<times> error_text option"

datatype put_response = Ok200 "item_result list" | Error500

definition wire :: "mapping \<Rightarrow> item_result" where
  "wire m = (path m, url m, error m)"

fun collect :: "(exn + mapping) list \<Rightarrow> exn + item_result list" where
  "collect [] = Inr []"
| "collect (Inl e # rs) = Inl e"
| "collect (Inr m # rs) = (case collect rs of Inl e \<Rightarrow> Inl e | Inr ws \<Rightarrow> Inr (wire m # ws))"

definition put :: "nat \<Rightarrow> nat \<Rightarrow> mapping list \<Rightarrow> state \<Rightarrow> put_response \<times> state" where
  "put k now list s =
     (let (result, s') = putAll k now list s
      in case collect result of
           Inl e \<Rightarrow> (Error500, s')
         | Inr ws \<Rightarrow> (Ok200 ws, s'))"

section \<open>States and predicates used in the statements\<close>

definition no_outer_ws :: "string \<Rightarrow> bool" where
  "no_outer_ws s = (s = [] \<or> (\<not> is_ws (hd s) \<and> \<not> is_ws (last s)))"

text \<open>The alphabet of \<open>urlSafe\<close> applied to base64.\<close>

definition url_chars :: string where
  "url_chars = ''ABCDEFGHIJKLMNOPQRSTUVWXYZabcdefghijklmnopqrstuvwxyz0123456789-_''"

text \<open>
  Following the spec's words: the length of the longest \<open>short_id\<close> among the colliding
  records.
\<close>

definition spec_longest_short_id :: "url_mapping list \<Rightarrow> nat" where
  "spec_longest_short_id r =
     foldr (\<lambda>x n. max (case row_short_id x of None \<Rightarrow> 0 | Some y \<Rightarrow> length y) n) r 0"

text \<open>
  Every \<open>short_id\<close> of the table has the length that a write into an empty prefix gives
  under the minimum length \<open>k\<close>.
\<close>

definition same_length :: "nat \<Rightarrow> url_mapping list \<Rightarrow> bool" where
  "same_length k tbl = (\<forall>x\<in>set tbl. \<forall>y. row_short_id x = Some y \<longrightarrow> length y = min k 43)"

text \<open>Three urls whose encodings start with the same four characters, \<open>ERvE\<close>.\<close>

definition url_A :: string where
  "url_A = ''https://example.com/705''"

definition url_B :: string where
  "url_B = ''https://example.com/762242''"

definition url_C :: string where
  "url_C = ''https://example.com/1863537''"

text \<open>The mapping of a request that holds only the url, once stored under \<open>sid\<close>.\<close>

definition stored_as :: "string \<Rightarrow> string \<Rightarrow> mapping" where
  "stored_as u sid =
     (request None (Some u))\<lparr>long_id := Some (long_id_of u), short_id := Some sid,
                              path := Some sid\<rparr>"

text \<open>The empty store, with empty caches and no pending work.\<close>

definition s0 :: state where
  "s0 = \<lparr>rows = [], auto_increment = 1, redis = Map.empty, cache = Map.empty, pending = []\<rparr>"

text \<open>A record of the path \<open>a/b\<close> with the url \<open>U1\<close>, which both caches hold.\<close>

definition row_ab :: url_mapping where
  "row_ab = \<lparr>row_id = 1, row_short_id = None, row_path = ''a/b'', row_url = Some ''U1'',
             row_origin_url = Some ''U1'', row_create_time = 10, row_last_update_time = 10\<rparr>"

definition s_ab :: state where
  "s_ab = \<lparr>rows = [row_ab], auto_increment = 2, redis = [''a/b'' \<mapsto> ''U1''],
           cache = [''a/b'' \<mapsto> ''U1''], pending = []\<rparr>"

text \<open>No record, and both caches hold a value for the path \<open>abc\<close>.\<close>

definition s_abc :: state where
  "s_abc = \<lparr>rows = [], auto_increment = 1, redis = [''abc'' \<mapsto> ''old''],
            cache = [''abc'' \<mapsto> ''old''], pending = []\<rparr>"

text \<open>A record of the path \<open>a/b\<close> whose url is the empty string.\<close>

definition row_e :: url_mapping where
  "row_e = \<lparr>row_id = 1, row_short_id = None, row_path = ''a/b'', row_url = Some [],
            row_origin_url = Some ''U1'', row_create_time = 10, row_last_update_time = 12\<rparr>"

definition s_e :: state where
  "s_e = \<lparr>rows = [row_e], auto_increment = 2, redis = Map.empty,
          cache = [''a/b'' \<mapsto> []], pending = []\<rparr>"

text \<open>The empty store after \<open>url_A\<close> was written at time 10 with a minimum length of 4.\<close>

definition row_A4 :: url_mapping where
  "row_A4 = \<lparr>row_id = 1, row_short_id = Some ''ERvE'', row_path = ''ERvE'',
              row_url = Some url_A, row_origin_url = Some url_A,
              row_create_time = 10, row_last_update_time = 10\<rparr>"

definition s_A :: state where
  "s_A = \<lparr>rows = [row_A4], auto_increment = 2, redis = Map.empty, cache = Map.empty,
          pending = [RedisDel ''ERvE'']\<rparr>"

text \<open>
  The store after \<open>url_C\<close> was written with a minimum length of 5 and \<open>url_A\<close> with a
  minimum length of 7, and the row a write of \<open>url_B\<close> adds to it.
\<close>

definition row_C5 :: url_mapping where
  "row_C5 = \<lparr>row_id = 1, row_short_id = Some ''ERvEK'', row_path = ''ERvEK'',
              row_url = Some url_C, row_origin_url = Some url_C,
              row_create_time = 10, row_last_update_time = 10\<rparr>"

definition row_A7 :: url_mapping where
  "row_A7 = \<lparr>row_id = 2, row_short_id = Some ''ERvE235'', row_path = ''ERvE235'',
              row_url = Some url_A, row_origin_url = Some url_A,
              row_create_time = 20, row_last_update_time = 20\<rparr>"


definition row_B5 :: url_mapping where
  "row_B5 = \<lparr>row_id = 3, row_short_id = Some ''ERvEq'', row_path = ''ERvEq'',
              row_url = Some url_B, row_origin_url = Some url_B,
              row_create_time = 30, row_last_update_time = 30\<rparr>"

text \<open>
  A store that holds \<open>ERvEK\<close> only, and the same store after \<open>url_A\<close> was written at time
  20 with a minimum length of 4.
\<close>

definition s_c :: state where
  "s_c = \<lparr>rows = [row_C5], auto_increment = 2, redis = Map.empty, cache = Map.empty,
          pending = []\<rparr>"

definition row_A5 :: url_mapping where
  "row_A5 = \<lparr>row_id = 2, row_short_id = Some ''ERvE2'', row_path = ''ERvE2'',
              row_url = Some url_A, row_origin_url = Some url_A,
              row_create_time = 20, row_last_update_time = 20\<rparr>"

definition s_c1 :: state where
  "s_c1 = \<lparr>rows = [row_C5, row_A5], auto_increment = 3, redis = Map.empty, cache = Map.empty,
           pending = [RedisDel ''ERvE2'']\<rparr>"

section \<open>Evaluated digests\<close>

text \<open>
  The encodings of the three urls, from their SHA-256 digests. They agree on the first four
  characters.
\<close>

lemma long_id_A: "long_id_of url_A = ''ERvE235iYwWnv3vjLQ5U32qV3b5Fv5c8FaV2jzd8pz8''"
  unfolding url_A_def by code_simp

lemma long_id_B: "long_id_of url_B = ''ERvEqKFyaJwV3QXkp51xAdhIVUNFYdQzPKfBOC-jdQE''"
  unfolding url_B_def by code_simp


section \<open>Lemmas\<close>

subsection \<open>Strings\<close>

lemma rev_dropWhile_rev:
  "rev (dropWhile P (rev t)) = take (length t - length (takeWhile P (rev t))) t"
proof -
  have "dropWhile P (rev t) = drop (length (takeWhile P (rev t))) (rev t)"
    by (rule dropWhile_eq_drop)
  then show ?thesis by (simp add: rev_drop)
qed

lemma trim_take:
  "trim s = take (length (dropWhile is_ws s) - length (takeWhile is_ws (rev (dropWhile is_ws s))))
              (dropWhile is_ws s)"
  unfolding trim_def by (rule rev_dropWhile_rev)

lemma no_outer_ws_trim: "no_outer_ws (trim s)"
proof (cases "trim s = []")
  case True
  then show ?thesis by (simp add: no_outer_ws_def)
next
  case False
  define t where "t = dropWhile is_ws s"
  have ne: "dropWhile is_ws (rev t) \<noteq> []"
    using False by (simp add: trim_def t_def)
  have l: "\<not> is_ws (last (trim s))"
    using ne hd_dropWhile [of is_ws "rev t"] by (simp add: trim_def t_def last_rev)
  have tne: "t \<noteq> []" using ne by auto
  have "hd (trim s) = hd t"
    using False unfolding trim_take t_def [symmetric] by (cases t) (auto simp: take_Cons' split: if_splits)
  moreover have "\<not> is_ws (hd t)"
    using tne hd_dropWhile [of is_ws s] by (simp add: t_def)
  ultimately show ?thesis using l by (simp add: no_outer_ws_def)
qed


lemma take_length_take: "take (length (take n xs)) xs = take n xs"
  by (cases "n \<le> length xs") (simp_all add: min_def)

subsection \<open>The encoding\<close>

lemma length_round: "length (round v x) = length v"
  by (cases "(v, x)" rule: round.cases) (simp_all add: Let_def)

lemma length_foldl_round: "length (foldl round hs xs) = length hs"
  by (induction xs arbitrary: hs) (simp_all add: length_round)

lemma length_compress: "length (compress hs blk) = length hs"
  by (simp add: compress_def Let_def length_foldl_round)

lemma length_foldl_compress: "length (foldl compress hs bl) = length hs"
  by (induction bl arbitrary: hs) (simp_all add: length_compress)

lemma length_concat_bytes32: "length (concat (map bytes32 ws)) = 4 * length ws"
  by (induction ws) (simp_all add: bytes32_def)

lemma length_sha256: "length (sha256 u) = 32"
  by (simp add: sha256_def sha256_digest_def Let_def length_concat_bytes32
      length_foldl_compress H256_def)

text \<open>The characters a \<open>long_id\<close> is made of.\<close>

lemma b64_mem: "b64 x \<in> set b64chars"
proof -
  have "unat (x AND 63) \<le> unat (63 :: byte)"
    by (rule word_and_le1 [THEN word_le_nat_alt [THEN iffD1]])
  then have "unat (x AND 63) < length b64chars"
    by (simp add: b64chars_def)
  then show ?thesis unfolding b64_def by (rule nth_mem)
qed

lemma length_urlSafe_char: "c \<in> set b64chars \<Longrightarrow> length (urlSafe_char c) = 1"
  by (auto simp: urlSafe_char_def b64chars_def)

lemma length_urlSafe_b64: "length (urlSafe (b64 x # cs)) = Suc (length (urlSafe cs))"
  using length_urlSafe_char [OF b64_mem, of x] by (simp add: urlSafe_def)

lemma urlSafe_pad: "urlSafe (CHR ''='' # cs) = urlSafe cs"
  by (simp add: urlSafe_def urlSafe_char_def)

lemma length_urlSafe_base64: "length (urlSafe (base64 bs)) = (4 * length bs + 2) div 3"
  by (induction bs rule: base64.induct)
     (simp_all add: length_urlSafe_b64 urlSafe_pad urlSafe_def [of "[]"])

lemma length_long_id_of: "length (long_id_of u) = 43"
  by (simp add: long_id_of_def length_urlSafe_base64 length_sha256)

lemma set_base64: "set (base64 bs) \<subseteq> insert CHR ''='' (set b64chars)"
  by (induction bs rule: base64.induct) (simp_all add: b64_mem)

lemma set_urlSafe_char:
  "c \<in> insert CHR ''='' (set b64chars) \<Longrightarrow> set (urlSafe_char c) \<subseteq> set url_chars"
  by (auto simp: urlSafe_char_def b64chars_def url_chars_def)

lemma set_long_id_of: "set (long_id_of u) \<subseteq> set url_chars"
proof
  fix c assume "c \<in> set (long_id_of u)"
  then obtain d where d: "d \<in> set (base64 (sha256 u))" and c: "c \<in> set (urlSafe_char d)"
    unfolding long_id_of_def urlSafe_def by auto
  from d set_base64 have "d \<in> insert CHR ''='' (set b64chars)" by blast
  from set_urlSafe_char [OF this] c show "c \<in> set url_chars" by blast
qed

lemma url_chars_plain: "c \<in> set url_chars \<Longrightarrow> c \<noteq> CHR ''%'' \<and> c \<noteq> CHR 0x5C"
  by (auto simp: url_chars_def)

subsection \<open>The store\<close>

lemma pad_le_refl: "pad_le xs xs"
  by (induction xs) simp_all

lemma sql_eq_refl: "sql_eq a a"
  by (simp add: sql_eq_def sql_le_def pad_le_refl)



lemma sql_like_length:
  "\<forall>c\<in>set p. c \<noteq> CHR ''%'' \<and> c \<noteq> CHR 0x5C \<Longrightarrow> sql_like (p @ q) s \<Longrightarrow> length p \<le> length s"
proof (induction p arbitrary: s)
  case Nil
  then show ?case by simp
next
  case (Cons c p)
  then have c: "c \<noteq> CHR ''%''" "c \<noteq> CHR 0x5C" and p: "\<forall>c\<in>set p. c \<noteq> CHR ''%'' \<and> c \<noteq> CHR 0x5C"
    by simp_all
  from Cons.prems(2) c obtain d ds where s: "s = d # ds" and l: "sql_like (p @ q) ds"
    by (cases s) (simp_all split: if_splits)
  from Cons.IH [OF p l] s show ?case by simp
qed

lemma like_take_long_id:
  "sql_like (take k (long_id_of u) @ ''%'') l \<Longrightarrow> min k 43 \<le> length l"
proof -
  assume a: "sql_like (take k (long_id_of u) @ ''%'') l"
  have "\<forall>c\<in>set (take k (long_id_of u)). c \<noteq> CHR ''%'' \<and> c \<noteq> CHR 0x5C"
    using set_long_id_of [of u] url_chars_plain by (meson in_set_takeD subsetD)
  from sql_like_length [OF this a] show ?thesis by (simp add: length_long_id_of)
qed


lemma set_insort_row: "set (insort_row a bs) = insert a (set bs)"
  by (induction bs) auto

lemma set_order_by_short_id: "set (order_by_short_id rs) = set rs"
  unfolding order_by_short_id_def by (induction rs) (simp_all add: set_insort_row)

lemma select_by_short_id_like_mem:
  "x \<in> set (select_by_short_id_like tbl p)
     \<longleftrightarrow> x \<in> set tbl \<and> (\<exists>y. row_short_id x = Some y \<and> sql_like (p @ ''%'') y)"
  by (auto simp: select_by_short_id_like_def set_order_by_short_id split: option.splits)


lemma last_select_short_id:
  assumes "select_by_short_id_like tbl p \<noteq> []"
  shows "\<exists>l. row_short_id (last (select_by_short_id_like tbl p)) = Some l
              \<and> sql_like (p @ ''%'') l"
proof -
  have "last (select_by_short_id_like tbl p) \<in> set (select_by_short_id_like tbl p)"
    using assms by simp
  then show ?thesis by (auto simp: select_by_short_id_like_mem)
qed

lemma spec_longest_short_id_ge:
  "x \<in> set r \<Longrightarrow> row_short_id x = Some y \<Longrightarrow> length y \<le> spec_longest_short_id r"
  unfolding spec_longest_short_id_def by (induction r) auto

lemma queryOne_Some_mem: "queryOne (filter P xs) = Some r \<Longrightarrow> r \<in> set xs \<and> P r"
proof -
  assume "queryOne (filter P xs) = Some r"
  then obtain ys where "filter P xs = r # ys"
    by (auto simp: queryOne_def split: list.splits)
  then have "r \<in> set (filter P xs)" by simp
  then show ?thesis by simp
qed

lemma update_url_mem:
  "r \<in> set tbl \<Longrightarrow> r\<lparr>row_url := u, row_last_update_time := now\<rparr> \<in> set (update_url now u (row_id r) tbl)"
  by (force simp: update_url_def)

lemma update_url_nth:
  "i < length tbl \<Longrightarrow>
   update_url now u j tbl ! i
     = (if row_id (tbl ! i) = j then (tbl ! i)\<lparr>row_url := u, row_last_update_time := now\<rparr>
        else tbl ! i)"
  by (simp add: update_url_def)

lemma update_url_fresh:
  "\<forall>r\<in>set tbl. row_id r \<noteq> i \<Longrightarrow> update_url now u i tbl = tbl"
  by (induction tbl) (auto simp: update_url_def)

lemma distinct_row_id:
  "distinct (map row_id tbl) \<Longrightarrow> r \<in> set tbl \<Longrightarrow> x \<in> set tbl \<Longrightarrow>
   row_id x = row_id r \<Longrightarrow> x = r"
  by (metis distinct_map inj_on_def)

lemma select_by_path_update:
  "select_by_path (update_url now u i tbl) p = update_url now u i (select_by_path tbl p)"
  by (induction tbl) (auto simp: select_by_path_def update_url_def)

lemma queryOne_update:
  "queryOne (select_by_path tbl p) = Some r \<Longrightarrow>
   queryOne (select_by_path (update_url now u (row_id r) tbl) p)
     = Some (r\<lparr>row_url := u, row_last_update_time := now\<rparr>)"
proof -
  assume "queryOne (select_by_path tbl p) = Some r"
  then obtain rs where "select_by_path tbl p = r # rs"
    by (auto simp: queryOne_def split: list.splits)
  then show ?thesis
    by (simp add: select_by_path_update) (simp add: update_url_def queryOne_def)
qed

lemma dup_entry_None:
  "dup_entry tbl None p = (select_by_path tbl p \<noteq> [])"
  by (induction tbl) (auto simp: dup_entry_def select_by_path_def)

lemma insert_row_fail:
  "insert_row now sid p u ou s = (Some e, s') \<Longrightarrow>
   rows s' = rows s \<and> redis s' = redis s \<and> cache s' = cache s \<and> pending s' = pending s"
  by (auto simp: insert_row_def split: option.splits if_splits)

lemma insert_row_None:
  "insert_row now sid (Some p) u ou s = (None, s') \<Longrightarrow>
   \<not> dup_entry (rows s) sid p
   \<and> s' = s\<lparr>rows := rows s @
               [\<lparr>row_id = auto_increment s, row_short_id = sid, row_path = p,
                 row_url = u, row_origin_url = ou,
                 row_create_time = now, row_last_update_time = now\<rparr>],
             auto_increment := Suc (auto_increment s)\<rparr>"
  by (auto simp: insert_row_def split: if_splits)

subsection \<open>The queue of pending work\<close>

lemma settle_Nil: "pending s = [] \<Longrightarrow> settle s = s"
  by (subst settle.simps) simp

lemma settle_Cons: "pending s = t # ts \<Longrightarrow> settle s = settle (run_task t (s\<lparr>pending := ts\<rparr>))"
  by (subst settle.simps) (simp add: run_next_def)

lemma settle_callbacks:
  "pending s = cs @ [CacheDel p] \<Longrightarrow> \<forall>t\<in>set cs. is_callback t \<Longrightarrow>
   cache (settle s) p = None \<and> redis (settle s) = redis s
   \<and> rows (settle s) = rows s \<and> pending (settle s) = []"
proof (induction cs arbitrary: s)
  case Nil
  then show ?case by (simp add: settle_Cons settle_Nil)
next
  case (Cons c cs)
  let ?s' = "run_task c (s\<lparr>pending := cs @ [CacheDel p]\<rparr>)"
  have step: "settle s = settle ?s'"
    using Cons.prems(1) by (simp add: settle_Cons)
  have c: "is_callback c" and cs: "\<forall>t\<in>set cs. is_callback t"
    using Cons.prems(2) by simp_all
  have s': "pending ?s' = cs @ [CacheDel p] \<and> redis ?s' = redis s \<and> rows ?s' = rows s"
    using c by (cases c) simp_all
  from Cons.IH [of ?s'] s' cs step show ?case by simp
qed

lemma settle_invalidation:
  "pending s = pre @ RedisDel p # post \<Longrightarrow> \<forall>t\<in>set post. is_callback t \<Longrightarrow>
   redis (settle s) p = None \<and> cache (settle s) p = None
   \<and> rows (settle s) = rows s \<and> pending (settle s) = []"
proof (induction pre arbitrary: s post)
  case Nil
  let ?s' = "run_task (RedisDel p) (s\<lparr>pending := post\<rparr>)"
  have step: "settle s = settle ?s'"
    using Nil.prems(1) by (simp add: settle_Cons)
  have "pending ?s' = post @ [CacheDel p]" by simp
  from settle_callbacks [OF this Nil.prems(2)] step show ?case by simp
next
  case (Cons t pre)
  let ?s' = "run_task t (s\<lparr>pending := pre @ RedisDel p # post\<rparr>)"
  have step: "settle s = settle ?s'"
    using Cons.prems(1) by (simp add: settle_Cons)
  obtain post' where s': "pending ?s' = pre @ RedisDel p # post'"
    "\<forall>t\<in>set post'. is_callback t" "rows ?s' = rows s"
    using Cons.prems(2) by (cases t) auto
  from Cons.IH [OF s'(1,2)] s'(3) step show ?case by simp
qed

subsection \<open>The resolver\<close>

lemma getURL_miss:
  "\<not> truthy (cache s p) \<Longrightarrow> \<not> truthy (redis s p) \<Longrightarrow>
   getURL p s =
     (let location = (case queryOne (select_by_path (rows s) p) of
                        None \<Rightarrow> redis s p | Some m \<Rightarrow> row_url m)
      in case location of
           None \<Rightarrow> (location, s)
         | Some l \<Rightarrow> if l \<noteq> [] then (location, s\<lparr>pending := pending s @ [RedisSet p l]\<rparr>)
                     else (location, s))"
  by (simp add: getURL_def Let_def)

subsection \<open>The mapping writer\<close>

lemma error_normalize: "error (normalize m) = error m"
  by (simp add: normalize_def Let_def)

lemma id_normalize: "id' (normalize m) = id' m"
  by (simp add: normalize_def Let_def)

lemma normalize_url_empty:
  "url m = None \<or> (\<exists>u. url m = Some u \<and> trim u = []) \<Longrightarrow>
   url (normalize m) = (case url m of None \<Rightarrow> None | Some u \<Rightarrow> Some [])"
  by (auto simp: normalize_def Let_def truthy_def trim_def split: option.splits)

lemma path_normalize_request:
  "path (normalize (request P U)) = path (normalize (request P U'))"
  by (simp add: normalize_def request_def Let_def)

lemma normalize_request_url:
  "trim u = u \<Longrightarrow> normalize (request None (Some u)) = request None (Some u)"
  by (simp add: normalize_def request_def truthy_def Let_def)

lemma rows_invalidate: "rows (invalidate r s) = rows s"
  by (simp add: invalidate_def split: option.splits)

lemma putURL_path:
  "path (normalize m) = Some p \<Longrightarrow> p \<noteq> [] \<Longrightarrow>
   putURL k now m s =
     (case put_path now (normalize m) p s of
        (Inl e, s') \<Rightarrow> (Inl e, s')
      | (Inr r, s') \<Rightarrow> (Inr r, invalidate r s'))"
  by (simp add: putURL_def Let_def split: prod.splits sum.splits)

lemma putURL_url:
  "\<not> truthy (path (normalize m)) \<Longrightarrow> url (normalize m) = Some u \<Longrightarrow> u \<noteq> [] \<Longrightarrow>
   putURL k now m s =
     (case put_url k now (normalize m) u s of
        (Inl e, s') \<Rightarrow> (Inl e, s')
      | (Inr r, s') \<Rightarrow> (Inr r, invalidate r s'))"
  by (auto simp: putURL_def Let_def truthy_def split: prod.splits sum.splits option.splits)

lemma putURL_empty:
  "\<not> truthy (path (normalize m)) \<Longrightarrow> \<not> truthy (url (normalize m)) \<Longrightarrow>
   putURL k now m s = (Inr ((normalize m)\<lparr>error := Some PathAndUrlEmpty\<rparr>), s)"
  by (auto simp: putURL_def Let_def truthy_def invalidate_def split: option.splits)

lemma putURL_cases:
  obtains (path) p where "path (normalize m) = Some p" "p \<noteq> []"
  | (url) u where "\<not> truthy (path (normalize m))" "url (normalize m) = Some u" "u \<noteq> []"
  | (empty) "\<not> truthy (path (normalize m))" "\<not> truthy (url (normalize m))"
  by (cases "path (normalize m)"; cases "url (normalize m)") (auto simp: truthy_def)

lemma put_path_update:
  "queryOne (select_by_path (rows s) p) = Some r \<Longrightarrow>
   put_path now mp p s = (Inr mp, s\<lparr>rows := update_url now (url mp) (row_id r) (rows s)\<rparr>)"
  by (simp add: put_path_def)

lemma put_path_insert:
  "select_by_path (rows s) p = [] \<Longrightarrow> has_slash p \<Longrightarrow>
   put_path now mp p s
     = (Inr mp,
        s\<lparr>rows := rows s @
             [\<lparr>row_id = auto_increment s, row_short_id = None, row_path = p,
               row_url = url mp, row_origin_url = url mp,
               row_create_time = now, row_last_update_time = now\<rparr>],
           auto_increment := Suc (auto_increment s)\<rparr>)"
  by (simp add: put_path_def queryOne_def insert_row_def dup_entry_None)

lemma put_path_Inl:
  "put_path now mp p s = (Inl e, s') \<Longrightarrow>
   rows s' = rows s \<and> redis s' = redis s \<and> cache s' = cache s \<and> pending s' = pending s"
  by (auto simp: put_path_def split: option.splits if_splits prod.splits dest: insert_row_fail)

lemma put_path_error:
  "put_path now mp p s = (Inr r, s') \<Longrightarrow> error mp = None \<Longrightarrow> error r \<noteq> None \<Longrightarrow>
   s' = s \<and> path r = path mp"
  by (auto simp: put_path_def split: option.splits if_splits prod.splits)

lemma error_reuse: "error mp = None \<Longrightarrow> error (reuse r mp) = None"
  by (induction r arbitrary: mp) (auto simp: of_row_def)

lemma reuse_none: "\<forall>x\<in>set r. row_url x \<noteq> url mp \<Longrightarrow> reuse r mp = mp"
  by (induction r arbitrary: mp) simp_all

lemma reuse_some:
  "\<exists>x\<in>set r. row_url x = url mp \<Longrightarrow> \<exists>x\<in>set r. row_url x = url mp \<and> reuse r mp = of_row x"
proof (induction r arbitrary: mp)
  case Nil
  then show ?case by simp
next
  case (Cons a r)
  show ?case
  proof (cases "\<exists>x\<in>set r. row_url x = url mp")
    case True
    have u: "url (if row_url a = url mp then of_row a else mp) = url mp"
      by (simp add: of_row_def)
    from Cons.IH [of "if row_url a = url mp then of_row a else mp"] True u
    show ?thesis by auto
  next
    case False
    with Cons.prems have a: "row_url a = url mp" by auto
    have "\<forall>x\<in>set r. row_url x \<noteq> url (of_row a)"
      using False a by (simp add: of_row_def)
    then have "reuse r (of_row a) = of_row a" by (rule reuse_none)
    with a show ?thesis by simp
  qed
qed


lemma id_reuse_Some: "id' mp \<noteq> None \<Longrightarrow> id' (reuse r mp) \<noteq> None"
  by (induction r arbitrary: mp) (simp_all add: of_row_def)

lemma id_reuse_None: "id' (reuse r mp) = None \<Longrightarrow> reuse r mp = mp"
proof (induction r arbitrary: mp)
  case Nil
  then show ?case by simp
next
  case (Cons a r)
  show ?case
  proof (cases "row_url a = url mp")
    case True
    have "id' (reuse r (of_row a)) \<noteq> None"
      by (rule id_reuse_Some) (simp add: of_row_def)
    with Cons.prems True show ?thesis by simp
  next
    case False
    with Cons show ?thesis by simp
  qed
qed

lemma put_url_fresh:
  assumes "select_by_short_id_like (rows s) (take k (long_id_of u)) = []"
  shows "put_url k now mp u s =
     (let sid = take k (long_id_of u);
          mp' = mp\<lparr>long_id := Some (long_id_of u), short_id := Some sid, path := Some sid\<rparr>
      in if id' mp = None
         then (case insert_row now (Some sid) (Some sid) (url mp) (url mp) s of
                 (Some e, s') \<Rightarrow> (Inl e, s')
               | (None, s') \<Rightarrow> (Inr mp', s'))
         else (Inr mp', s))"
  using assms by (simp add: put_url_def Let_def)

lemma put_url_collide:
  assumes "select_by_short_id_like (rows s) (take k (long_id_of u)) = r" and "r \<noteq> []"
    and "row_short_id (last r) = Some l"
  shows "put_url k now mp u s =
     (let sid = take (length l) (long_id_of u);
          mp' = reuse r (mp\<lparr>long_id := Some (long_id_of u), short_id := Some sid,
                            path := Some sid\<rparr>)
      in if id' mp' = None
         then (case insert_row now (short_id mp') (path mp') (url mp') (url mp') s of
                 (Some e, s') \<Rightarrow> (Inl e, s')
               | (None, s') \<Rightarrow> (Inr mp', s'))
         else (Inr mp', s))"
  using assms by (simp add: put_url_def Let_def)

lemma put_url_Inl:
  "put_url k now mp u s = (Inl e, s') \<Longrightarrow>
   rows s' = rows s \<and> redis s' = redis s \<and> cache s' = cache s \<and> pending s' = pending s"
  by (auto simp: put_url_def Let_def split: option.splits if_splits prod.splits sum.splits
      dest: insert_row_fail)

lemma put_url_error:
  "put_url k now mp u s = (Inr r, s') \<Longrightarrow> error mp = None \<Longrightarrow> error r = None"
  by (auto simp: put_url_def Let_def error_reuse split: option.splits if_splits prod.splits sum.splits)

text \<open>What a write without a path does when it ends without reusing a record.\<close>

lemma putURL_inserted:
  assumes "\<not> truthy (path (normalize m))" and "url (normalize m) = Some u" and "u \<noteq> []"
    and "id' m = None" and "putURL k now m s = (Inr r, s')" and "id' r = None"
  shows "\<exists>n. min k 43 \<le> n
           \<and> (select_by_short_id_like (rows s) (take k (long_id_of u)) = [] \<longrightarrow> n = k)
           \<and> (\<forall>l. select_by_short_id_like (rows s) (take k (long_id_of u)) \<noteq> []
                  \<and> row_short_id (last (select_by_short_id_like (rows s) (take k (long_id_of u))))
                      = Some l \<longrightarrow> n = length l)
           \<and> r = (normalize m)\<lparr>long_id := Some (long_id_of u),
                                 short_id := Some (take n (long_id_of u)),
                                 path := Some (take n (long_id_of u))\<rparr>
           \<and> \<not> dup_entry (rows s) (Some (take n (long_id_of u))) (take n (long_id_of u))
           \<and> (\<forall>x\<in>set (select_by_short_id_like (rows s) (take k (long_id_of u))).
                  row_url x \<noteq> Some u)
           \<and> rows s' = rows s @
                [\<lparr>row_id = auto_increment s, row_short_id = Some (take n (long_id_of u)),
                  row_path = take n (long_id_of u), row_url = Some u, row_origin_url = Some u,
                  row_create_time = now, row_last_update_time = now\<rparr>]"
proof -
  let ?lid = "long_id_of u"
  let ?q = "select_by_short_id_like (rows s) (take k ?lid)"
  let ?mp = "\<lambda>n. (normalize m)\<lparr>long_id := Some ?lid, short_id := Some (take n ?lid),
                                  path := Some (take n ?lid)\<rparr>"
  from assms(1-3,5) obtain s'' where pu: "put_url k now (normalize m) u s = (Inr r, s'')"
    and s': "s' = invalidate r s''"
    by (auto simp: putURL_url split: prod.splits sum.splits)
  have rows: "rows s' = rows s''" by (simp add: s' invalidate_def split: option.splits)
  show ?thesis
  proof (cases "?q = []")
    case True
    from pu assms(4) have "insert_row now (Some (take k ?lid)) (Some (take k ?lid))
        (url (normalize m)) (url (normalize m)) s = (None, s'') \<and> r = ?mp k"
      by (auto simp: put_url_fresh [OF True] Let_def id_normalize split: prod.splits option.splits)
    with insert_row_None [of now "Some (take k ?lid)" "take k ?lid" "Some u" "Some u" s s'']
      assms(2) True rows
    show ?thesis by (intro exI [of _ k]) simp
  next
    case False
    then obtain l where l: "row_short_id (last ?q) = Some l" "sql_like (take k ?lid @ ''%'') l"
      using last_select_short_id by blast
    let ?n = "length l"
    have n: "min k 43 \<le> ?n" using l(2) by (rule like_take_long_id)
    have col: "put_url k now (normalize m) u s =
       (let mp' = reuse ?q (?mp ?n)
        in if id' mp' = None
           then (case insert_row now (short_id mp') (path mp') (url mp') (url mp') s of
                   (Some e, s') \<Rightarrow> (Inl e, s')
                 | (None, s') \<Rightarrow> (Inr mp', s'))
           else (Inr mp', s))"
      using put_url_collide [OF refl False l(1), of now "normalize m"] by (simp add: Let_def)
    have "id' (reuse ?q (?mp ?n)) = None"
      using pu assms(6) unfolding col by (auto simp: Let_def split: if_splits prod.splits option.splits)
    then have ru: "reuse ?q (?mp ?n) = ?mp ?n" by (rule id_reuse_None)
    have nr: "\<forall>x\<in>set ?q. row_url x \<noteq> Some u"
    proof (rule ccontr)
      assume "\<not> (\<forall>x\<in>set ?q. row_url x \<noteq> Some u)"
      then have "\<exists>x\<in>set ?q. row_url x = url (?mp ?n)" using assms(2) by simp
      from reuse_some [OF this] obtain x where "reuse ?q (?mp ?n) = of_row x" by blast
      then have "id' (reuse ?q (?mp ?n)) \<noteq> None" by (simp add: of_row_def)
      then show False unfolding ru by (simp add: id_normalize assms(4))
    qed
    from pu have "insert_row now (Some (take ?n ?lid)) (Some (take ?n ?lid))
        (url (normalize m)) (url (normalize m)) s = (None, s'') \<and> r = ?mp ?n"
      unfolding col ru by (auto simp: id_normalize assms(4) split: prod.splits option.splits)
    with insert_row_None [of now "Some (take ?n ?lid)" "take ?n ?lid" "Some u" "Some u" s s'']
      assms(2) False rows l(1) n nr
    show ?thesis by (intro exI [of _ ?n]) simp
  qed
qed




subsection \<open>Tables written under one minimum length\<close>

text \<open>
  As long as the minimum length is never changed and no other program writes the table,
  every \<open>short_id\<close> has the same length, and the last row of a result is a longest one.
\<close>

lemma same_length_s0: "same_length k (rows s0)"
  by (simp add: same_length_def s0_def)

lemma spec_longest_short_id_le:
  "\<forall>x\<in>set r. \<forall>y. row_short_id x = Some y \<longrightarrow> length y \<le> n \<Longrightarrow>
   spec_longest_short_id r \<le> n"
  unfolding spec_longest_short_id_def by (induction r) (auto split: option.splits)

lemma same_length_update: "same_length k tbl \<Longrightarrow> same_length k (update_url now u i tbl)"
  by (auto simp: same_length_def update_url_def split: if_splits)

lemma same_length_put_path:
  "same_length k (rows s) \<Longrightarrow> same_length k (rows (snd (put_path now mp p s)))"
proof -
  assume a: "same_length k (rows s)"
  have "same_length k (rows s @ [\<lparr>row_id = i, row_short_id = None, row_path = p', row_url = v,
      row_origin_url = w, row_create_time = t, row_last_update_time = t'\<rparr>])" for i p' v w t t'
    using a by (simp add: same_length_def)
  with a show ?thesis
    by (auto simp: put_path_def insert_row_def same_length_update Let_def split: option.splits)
qed

lemma same_length_put_url:
  assumes "same_length k (rows s)"
  shows "same_length k (rows (snd (put_url k now mp u s)))"
proof -
  let ?lid = "long_id_of u"
  let ?q = "select_by_short_id_like (rows s) (take k ?lid)"
  have ins: "\<And>n sid p' v. min n 43 = min k 43 \<Longrightarrow>
      same_length k (rows s @
        [\<lparr>row_id = auto_increment s, row_short_id = Some (take n ?lid), row_path = p',
          row_url = v, row_origin_url = v, row_create_time = now, row_last_update_time = now\<rparr>])"
    using assms by (auto simp: same_length_def length_long_id_of min.commute)
  show ?thesis
  proof (cases "?q = []")
    case True
    show ?thesis
      using assms ins [of k]
      by (auto simp: put_url_fresh [OF True] Let_def insert_row_def split: option.splits)
  next
    case False
    then obtain l where l: "row_short_id (last ?q) = Some l"
      using last_select_short_id by blast
    have "last ?q \<in> set (rows s)"
      using False last_in_set select_by_short_id_like_mem by blast
    with assms l have n: "length l = min k 43" by (simp add: same_length_def)
    let ?mp = "mp\<lparr>long_id := Some ?lid, short_id := Some (take (length l) ?lid),
                    path := Some (take (length l) ?lid)\<rparr>"
    show ?thesis
    proof (cases "id' (reuse ?q ?mp) = None")
      case True
      then have "reuse ?q ?mp = ?mp" by (rule id_reuse_None)
      then show ?thesis
        using assms ins [of "length l"] n
        by (auto simp: put_url_collide [OF refl False l] Let_def insert_row_def)
    next
      case False
      then show ?thesis
        using assms by (auto simp: put_url_collide [OF refl \<open>?q \<noteq> []\<close> l] Let_def)
    qed
  qed
qed

lemma same_length_putURL:
  "same_length k (rows s) \<Longrightarrow> same_length k (rows (snd (putURL k now m s)))"
proof (cases m rule: putURL_cases)
  case (path p)
  assume "same_length k (rows s)"
  from same_length_put_path [OF this, of now "normalize m" p] path show ?thesis
    by (auto simp: putURL_path rows_invalidate split: prod.splits sum.splits)
next
  case (url u)
  assume "same_length k (rows s)"
  from same_length_put_url [OF this, of now "normalize m" u] url show ?thesis
    by (auto simp: putURL_url rows_invalidate split: prod.splits sum.splits)
next
  case empty
  assume "same_length k (rows s)"
  with empty show ?thesis by (simp add: putURL_empty)
qed

lemma same_length_last_is_longest:
  assumes "same_length k tbl" and "select_by_short_id_like tbl p = r" and "r \<noteq> []"
    and "row_short_id (last r) = Some l"
  shows "length l = spec_longest_short_id r"
proof -
  have mem: "\<forall>x\<in>set r. x \<in> set tbl"
    using assms(2) by (auto simp: select_by_short_id_like_mem)
  have "last r \<in> set r" using assms(3) by simp
  with mem assms(1,4) have n: "length l = min k 43" by (auto simp: same_length_def)
  have "spec_longest_short_id r \<le> length l"
    using mem assms(1) n by (intro spec_longest_short_id_le) (auto simp: same_length_def)
  moreover have "length l \<le> spec_longest_short_id r"
    using \<open>last r \<in> set r\<close> assms(4) spec_longest_short_id_ge by blast
  ultimately show ?thesis by simp
qed

subsection \<open>Evaluations\<close>

lemma trim_urls: "trim url_A = url_A" "trim url_B = url_B" "trim url_C = url_C"
  by (simp_all add: url_A_def url_B_def url_C_def trim_def is_ws_def)

lemma urls_nonempty: "url_A \<noteq> []" "url_B \<noteq> []" "url_C \<noteq> []"
  by (simp_all add: url_A_def url_B_def url_C_def)

lemma urls_distinct:
  "url_A \<noteq> url_B" "url_B \<noteq> url_A" "url_A \<noteq> url_C" "url_C \<noteq> url_A"
  "url_B \<noteq> url_C" "url_C \<noteq> url_B"
  by (simp_all add: url_A_def url_B_def url_C_def)

lemma request_url:
  "\<not> truthy (path (normalize (request None (Some u))))"
  "trim u = u \<Longrightarrow> url (normalize (request None (Some u))) = Some u"
  "id' (request None (Some u)) = None"
  by (simp_all add: normalize_def request_def truthy_def Let_def)

lemma putURL_request_url:
  "trim u = u \<Longrightarrow> u \<noteq> [] \<Longrightarrow>
   putURL k now (request None (Some u)) s =
     (case put_url k now (request None (Some u)) u s of
        (Inl e, s') \<Rightarrow> (Inl e, s')
      | (Inr r, s') \<Rightarrow> (Inr r, invalidate r s'))"
proof -
  assume t: "trim u = u" and n: "u \<noteq> []"
  have nm: "normalize (request None (Some u)) = request None (Some u)"
    using t by (rule normalize_request_url)
  have "\<not> truthy (path (normalize (request None (Some u))))" by (rule request_url(1))
  moreover have "url (normalize (request None (Some u))) = Some u" using t by (rule request_url(2))
  ultimately show ?thesis using n by (simp add: putURL_url nm)
qed

lemmas put_url_eval = put_url_def Let_def insert_row_def invalidate_def of_row_def request_def
  stored_as_def

lemma sql_eq_ab: "sql_eq ''a/b'' ''a/b''"
  by (simp add: sql_eq_def sql_le_def ci_weight_def)

lemma select_s0: "select_by_short_id_like [] p = []"
  by (simp add: select_by_short_id_like_def order_by_short_id_def)

lemma dup_s0: "\<not> dup_entry [] sid p"
  by (simp add: dup_entry_def)

lemma select_A4: "select_by_short_id_like [row_A4] ''ERvE'' = [row_A4]"
  by code_simp

lemma dup_A4: "dup_entry [row_A4] (Some ''ERvE'') ''ERvE''"
  by code_simp






lemma select_s_c: "select_by_short_id_like [row_C5] ''ERvE'' = [row_C5]"
  by code_simp

lemma dup_s_c: "\<not> dup_entry [row_C5] (Some ''ERvE2'') ''ERvE2''"
  by code_simp

lemma select_s_c1: "select_by_short_id_like [row_C5, row_A5] ''ERvE'' = [row_A5, row_C5]"
  by code_simp

lemma dup_s_c1: "\<not> dup_entry [row_C5, row_A5] (Some ''ERvEq'') ''ERvEq''"
  by code_simp

lemma row_facts:
  "row_short_id row_C5 = Some ''ERvEK''" "row_url row_C5 = Some url_C"
  "row_short_id row_A7 = Some ''ERvE235''" "row_url row_A7 = Some url_A"
  "row_url row_A5 = Some url_A"
  "row_short_id row_A4 = Some ''ERvE''" "row_url row_A4 = Some url_A"
  by (simp_all add: row_C5_def row_A7_def row_A5_def row_A4_def)

text \<open>The path \<open>abc\<close>, without a record and without a separator.\<close>

lemma putURL_abc:
  "putURL 4 10 (request (Some ''abc'') (Some ''x'')) s_abc
     = (Inr ((request (Some ''abc'') (Some ''x''))\<lparr>error := Some PathNeedsSlash\<rparr>),
        s_abc\<lparr>pending := [RedisDel ''abc'']\<rparr>)"
  by (simp add: putURL_def normalize_def request_def truthy_def trim_def is_ws_def put_path_def
      select_by_path_def s_abc_def queryOne_def has_slash_def invalidate_def)

text \<open>On the empty store with a minimum length of 4: \<open>url_A\<close>, then \<open>url_B\<close>.\<close>

lemma putURL_A_s0:
  "putURL 4 10 (request None (Some url_A)) s0 = (Inr (stored_as url_A ''ERvE''), s_A)"
  unfolding putURL_request_url [OF trim_urls(1) urls_nonempty(1)]
  by (simp add: put_url_eval long_id_A s0_def
      select_s0 dup_s0)
     (simp add: row_A4_def s_A_def)

lemma putURL_B_s_A:
  "putURL 4 now (request None (Some url_B)) s_A = (Inl ER_DUP_ENTRY, s_A\<lparr>auto_increment := 3\<rparr>)"
  unfolding putURL_request_url [OF trim_urls(2) urls_nonempty(2)]
  by (simp add: put_url_eval long_id_B s_A_def
      select_A4 dup_A4 row_facts urls_distinct)



text \<open>On a store that holds \<open>ERvEK\<close>, with a minimum length of 4: \<open>url_A\<close>, then \<open>url_B\<close>.\<close>

lemma putURL_A_s_c:
  "putURL 4 20 (request None (Some url_A)) s_c = (Inr (stored_as url_A ''ERvE2''), s_c1)"
  unfolding putURL_request_url [OF trim_urls(1) urls_nonempty(1)]
  by (simp add: put_url_eval long_id_A s_c_def
      select_s_c dup_s_c row_facts urls_distinct)
     (simp add: row_A5_def s_c1_def)

lemma putURL_B_s_c1:
  "putURL 4 30 (request None (Some url_B)) s_c1
     = (Inr (stored_as url_B ''ERvEq''),
        s_c1\<lparr>rows := [row_C5, row_A5, row_B5], auto_increment := 4,
             pending := [RedisDel ''ERvE2'', RedisDel ''ERvEq'']\<rparr>)"
  unfolding putURL_request_url [OF trim_urls(2) urls_nonempty(2)]
  by (simp add: put_url_eval long_id_B s_c1_def
      select_s_c1 dup_s_c1 row_facts urls_distinct)
     (simp add: row_B5_def)

section \<open>The claims\<close>

subsection \<open>Claim C1\<close>




subsection \<open>Claim C2\<close>

text \<open>
  Claim C2, as the code has it. A write without a path that finds no record for the
  \<open>k\<close>-character prefix stores the url under exactly that prefix. When two urls with the
  same prefix are written one after the other and each write inserts a record, the
  two \<open>short_id\<close>s differ, each is a prefix of the encoding of its own url, and each has
  at least \<open>min k 43\<close> characters (43 being the length of every encoding).
\<close>

theorem C2_inserted_short_ids:
  "(\<not> truthy (path (normalize m1)) \<and> url (normalize m1) = Some u1 \<and> u1 \<noteq> [] \<and> id' m1 = None
      \<and> select_by_short_id_like (rows s) (take k (long_id_of u1)) = []
      \<and> putURL k t1 m1 s = (Inr r1, s1) \<longrightarrow>
      short_id r1 = Some (take k (long_id_of u1))
      \<and> length (take k (long_id_of u1)) = min k 43)
   \<and> (\<not> truthy (path (normalize m1)) \<and> url (normalize m1) = Some u1 \<and> u1 \<noteq> [] \<and> id' m1 = None
      \<and> \<not> truthy (path (normalize m2)) \<and> url (normalize m2) = Some u2 \<and> u2 \<noteq> [] \<and> id' m2 = None
      \<and> u1 \<noteq> u2 \<and> take k (long_id_of u1) = take k (long_id_of u2)
      \<and> putURL k t1 m1 s = (Inr r1, s1) \<and> id' r1 = None
      \<and> putURL k t2 m2 s1 = (Inr r2, s2) \<and> id' r2 = None \<longrightarrow>
      (\<exists>x1 x2. short_id r1 = Some x1 \<and> short_id r2 = Some x2 \<and> x1 \<noteq> x2
         \<and> x1 = take (length x1) (long_id_of u1) \<and> x2 = take (length x2) (long_id_of u2)
         \<and> min k 43 \<le> length x1 \<and> min k 43 \<le> length x2))"
proof (intro conjI impI)
  assume a: "\<not> truthy (path (normalize m1)) \<and> url (normalize m1) = Some u1 \<and> u1 \<noteq> []
      \<and> id' m1 = None \<and> select_by_short_id_like (rows s) (take k (long_id_of u1)) = []
      \<and> putURL k t1 m1 s = (Inr r1, s1)"
  then obtain s'' where "put_url k t1 (normalize m1) u1 s = (Inr r1, s'')"
    by (auto simp: putURL_url split: prod.splits sum.splits)
  with a show "short_id r1 = Some (take k (long_id_of u1))"
    by (auto simp: put_url_fresh Let_def id_normalize split: prod.splits option.splits)
  show "length (take k (long_id_of u1)) = min k 43"
    by (simp add: length_long_id_of min.commute)
next
  assume b: "\<not> truthy (path (normalize m1)) \<and> url (normalize m1) = Some u1 \<and> u1 \<noteq> []
      \<and> id' m1 = None
      \<and> \<not> truthy (path (normalize m2)) \<and> url (normalize m2) = Some u2 \<and> u2 \<noteq> [] \<and> id' m2 = None
      \<and> u1 \<noteq> u2 \<and> take k (long_id_of u1) = take k (long_id_of u2)
      \<and> putURL k t1 m1 s = (Inr r1, s1) \<and> id' r1 = None
      \<and> putURL k t2 m2 s1 = (Inr r2, s2) \<and> id' r2 = None"
  from b putURL_inserted [of m1 u1 k t1 s r1 s1]
  obtain n1 where n1: "min k 43 \<le> n1"
    "r1 = (normalize m1)\<lparr>long_id := Some (long_id_of u1),
            short_id := Some (take n1 (long_id_of u1)), path := Some (take n1 (long_id_of u1))\<rparr>"
    "rows s1 = rows s @
       [\<lparr>row_id = auto_increment s, row_short_id = Some (take n1 (long_id_of u1)),
         row_path = take n1 (long_id_of u1), row_url = Some u1, row_origin_url = Some u1,
         row_create_time = t1, row_last_update_time = t1\<rparr>]"
    by blast
  from b putURL_inserted [of m2 u2 k t2 s1 r2 s2]
  obtain n2 where n2: "min k 43 \<le> n2"
    "r2 = (normalize m2)\<lparr>long_id := Some (long_id_of u2),
            short_id := Some (take n2 (long_id_of u2)), path := Some (take n2 (long_id_of u2))\<rparr>"
    "\<not> dup_entry (rows s1) (Some (take n2 (long_id_of u2))) (take n2 (long_id_of u2))"
    by blast
  let ?x1 = "take n1 (long_id_of u1)" and ?x2 = "take n2 (long_id_of u2)"
  have "\<not> sql_eq ?x1 ?x2"
    using n2(3) unfolding n1(3) by (simp add: dup_entry_def)
  then have ne: "?x1 \<noteq> ?x2" using sql_eq_refl by metis
  have "min k 43 \<le> length ?x1" "min k 43 \<le> length ?x2"
    using n1(1) n2(1) by (simp_all add: length_long_id_of)
  moreover have "?x1 = take (length ?x1) (long_id_of u1)" "?x2 = take (length ?x2) (long_id_of u2)"
    by (simp_all only: take_length_take)
  moreover have "short_id r1 = Some ?x1" "short_id r2 = Some ?x2"
    by (simp_all add: n1(2) n2(2))
  ultimately show "\<exists>x1 x2. short_id r1 = Some x1 \<and> short_id r2 = Some x2 \<and> x1 \<noteq> x2
         \<and> x1 = take (length x1) (long_id_of u1) \<and> x2 = take (length x2) (long_id_of u2)
         \<and> min k 43 \<le> length x1 \<and> min k 43 \<le> length x2"
    using ne by blast
qed

text \<open>
  Claim C2 as stated fails. The encodings of \<open>url_A\<close> and \<open>url_B\<close> both start with \<open>ERvE\<close>.
  On the empty store, with a minimum length of 4, the first url is stored under \<open>ERvE\<close>,
  which has 4 characters and not more; for the second the query returns that record, the
  candidate is cut to its length, giving \<open>ERvE\<close> again, and the insert is refused by the
  unique index: the second url gets no \<open>short_id\<close>.
\<close>

theorem C2_counterexample:
  "url_A \<noteq> url_B
   \<and> take 4 (long_id_of url_A) = ''ERvE''
   \<and> take 4 (long_id_of url_B) = ''ERvE''
   \<and> putURL 4 10 (request None (Some url_A)) s0 = (Inr (stored_as url_A ''ERvE''), s_A)
   \<and> short_id (stored_as url_A ''ERvE'') = Some ''ERvE''
   \<and> putURL 4 11 (request None (Some url_B)) s_A
       = (Inl ER_DUP_ENTRY, s_A\<lparr>auto_increment := 3\<rparr>)"
  by (simp add: urls_distinct long_id_A long_id_B putURL_A_s0 putURL_B_s_A stored_as_def)

text \<open>
  Claim C2, the amended statement: the first part at the empty store, the second at a
  store that holds \<open>ERvEK\<close>, where the two urls are stored under \<open>ERvE2\<close> and \<open>ERvEq\<close>.
\<close>

theorem C2_inserted_short_ids_witness:
  "short_id (stored_as url_A ''ERvE'') = Some (take 4 (long_id_of url_A))
   \<and> length (take 4 (long_id_of url_A)) = min 4 43
   \<and> (\<exists>x1 x2. short_id (stored_as url_A ''ERvE2'') = Some x1
         \<and> short_id (stored_as url_B ''ERvEq'') = Some x2 \<and> x1 \<noteq> x2
         \<and> x1 = take (length x1) (long_id_of url_A) \<and> x2 = take (length x2) (long_id_of url_B)
         \<and> min 4 43 \<le> length x1 \<and> min 4 43 \<le> length x2)"
proof -
  let ?mA = "request None (Some url_A)" and ?mB = "request None (Some url_B)"
  have hA: "\<not> truthy (path (normalize ?mA)) \<and> url (normalize ?mA) = Some url_A \<and> url_A \<noteq> []
      \<and> id' ?mA = None"
    by (simp add: request_url trim_urls urls_nonempty)
  have hB: "\<not> truthy (path (normalize ?mB)) \<and> url (normalize ?mB) = Some url_B \<and> url_B \<noteq> []
      \<and> id' ?mB = None"
    by (simp add: request_url trim_urls urls_nonempty)
  have e0: "select_by_short_id_like (rows s0) (take 4 (long_id_of url_A)) = []"
    by (simp add: s0_def select_s0)
  have pre: "take 4 (long_id_of url_A) = take 4 (long_id_of url_B)"
    by (simp add: long_id_A long_id_B)
  have ids: "id' (stored_as url_A ''ERvE2'') = None" "id' (stored_as url_B ''ERvEq'') = None"
    by (simp_all add: stored_as_def request_def)
  note t = C2_inserted_short_ids [where ?m1.0 = ?mA and ?u1.0 = url_A and k = 4]
  have i: "short_id (stored_as url_A ''ERvE'') = Some (take 4 (long_id_of url_A))
      \<and> length (take 4 (long_id_of url_A)) = min 4 43"
    using t [where s = s0 and ?t1.0 = 10 and ?r1.0 = "stored_as url_A ''ERvE''" and ?s1.0 = s_A]
      hA e0 putURL_A_s0
    by blast
  have ii: "\<exists>x1 x2. short_id (stored_as url_A ''ERvE2'') = Some x1
         \<and> short_id (stored_as url_B ''ERvEq'') = Some x2 \<and> x1 \<noteq> x2
         \<and> x1 = take (length x1) (long_id_of url_A) \<and> x2 = take (length x2) (long_id_of url_B)
         \<and> min 4 43 \<le> length x1 \<and> min 4 43 \<le> length x2"
    using t [where ?m2.0 = ?mB and ?u2.0 = url_B and s = s_c and ?t1.0 = 20 and ?t2.0 = 30
        and ?r1.0 = "stored_as url_A ''ERvE2''" and ?s1.0 = s_c1
        and ?r2.0 = "stored_as url_B ''ERvEq''"
        and ?s2.0 = "s_c1\<lparr>rows := [row_C5, row_A5, row_B5], auto_increment := 4,
                          pending := [RedisDel ''ERvE2'', RedisDel ''ERvEq'']\<rparr>"]
      hA hB urls_distinct(1) pre putURL_A_s_c putURL_B_s_c1 ids
    by blast
  from i ii show ?thesis by blast
qed

subsection \<open>Claim C3\<close>



subsection \<open>Claim C4\<close>

text \<open>
  Claim C4, as the code has it. An item that ends with a validation error writes no record
  and leaves both caches as they are at that moment, but the invalidation of its path is
  queued whenever the normalized path is truthy (the path without a separator), and not
  queued when path and url are both falsy. An item whose query throws writes no record and
  queues nothing.
\<close>

theorem C4_failed_item:
  "(putURL k now m s = (Inr r, s') \<and> error m = None \<and> error r \<noteq> None \<longrightarrow>
      rows s' = rows s \<and> redis s' = redis s \<and> cache s' = cache s
      \<and> pending s' = pending s @
           (case path (normalize m) of None \<Rightarrow> []
            | Some p \<Rightarrow> if p = [] then [] else [RedisDel p]))
   \<and> (putURL k now m s = (Inl e, s') \<longrightarrow>
      rows s' = rows s \<and> redis s' = redis s \<and> cache s' = cache s \<and> pending s' = pending s)"
proof (cases m rule: putURL_cases)
  case (path p)
  then show ?thesis
    by (auto simp: putURL_path error_normalize invalidate_def
        split: prod.splits sum.splits dest: put_path_Inl put_path_error)
next
  case (url u)
  then show ?thesis
    by (auto simp: putURL_url error_normalize split: prod.splits sum.splits
        dest: put_url_Inl put_url_error)
next
  case empty
  then show ?thesis
    by (auto simp: putURL_empty truthy_def split: option.splits)
qed

text \<open>
  Claim C4 as stated fails: for the path \<open>abc\<close>, which has no record and no separator, the
  result carries the error and no record is written, yet the invalidation of \<open>abc\<close> is
  queued and removes the entry of both caches.
\<close>

theorem C4_counterexample:
  "putURL 4 10 (request (Some ''abc'') (Some ''x'')) s_abc
     = (Inr ((request (Some ''abc'') (Some ''x''))\<lparr>error := Some PathNeedsSlash\<rparr>),
        s_abc\<lparr>pending := [RedisDel ''abc'']\<rparr>)
   \<and> redis s_abc ''abc'' = Some ''old''
   \<and> cache s_abc ''abc'' = Some ''old''
   \<and> redis (run_next (s_abc\<lparr>pending := [RedisDel ''abc'']\<rparr>)) ''abc'' = None
   \<and> cache (run_next (run_next (s_abc\<lparr>pending := [RedisDel ''abc'']\<rparr>))) ''abc'' = None"
  by (simp add: putURL_abc run_next_def) (simp add: s_abc_def)

text \<open>
  Claim C4, the amended statement at the path \<open>abc\<close> (a validation error) and at \<open>url_B\<close>
  on the store \<open>s_A\<close>, where the insert is refused by the unique index (a thrown error).
\<close>

theorem C4_failed_item_witness:
  "rows (snd (putURL 4 10 (request (Some ''abc'') (Some ''x'')) s_abc)) = rows s_abc
   \<and> pending (snd (putURL 4 10 (request (Some ''abc'') (Some ''x'')) s_abc))
       = pending s_abc @ [RedisDel ''abc'']
   \<and> fst (putURL 4 11 (request None (Some url_B)) s_A) = Inl ER_DUP_ENTRY
   \<and> rows (snd (putURL 4 11 (request None (Some url_B)) s_A)) = rows s_A
   \<and> pending (snd (putURL 4 11 (request None (Some url_B)) s_A)) = pending s_A"
proof -
  let ?m = "request (Some ''abc'') (Some ''x'')"
  let ?r = "?m\<lparr>error := Some PathNeedsSlash\<rparr>"
  let ?s' = "s_abc\<lparr>pending := [RedisDel ''abc'']\<rparr>"
  have h: "putURL 4 10 ?m s_abc = (Inr ?r, ?s') \<and> error ?m = None \<and> error ?r \<noteq> None"
    by (simp add: putURL_abc) (simp add: request_def)
  have n: "path (normalize ?m) = Some ''abc''"
    by (simp add: request_def normalize_def truthy_def trim_def is_ws_def)
  have 1: "rows ?s' = rows s_abc \<and> pending ?s' = pending s_abc @ [RedisDel ''abc'']"
    using C4_failed_item [where k = 4 and now = 10 and m = ?m and s = s_abc and r = ?r
        and s' = ?s'] h n by simp
  have 2: "rows (s_A\<lparr>auto_increment := 3\<rparr>) = rows s_A
      \<and> pending (s_A\<lparr>auto_increment := 3\<rparr>) = pending s_A"
    using C4_failed_item [where k = 4 and now = 11 and s = s_A and e = ER_DUP_ENTRY
        and s' = "s_A\<lparr>auto_increment := 3\<rparr>" and m = "request None (Some url_B)"]
      putURL_B_s_A [of 11] by blast
  show ?thesis
    using 1 2 by (simp only: putURL_abc putURL_B_s_A fst_conv snd_conv simp_thms)
qed

subsection \<open>Claim C5\<close>




subsection \<open>Claim C6\<close>

text \<open>
  Claim C6, as the code has it. The write of a path that has a record returns with both
  caches untouched and the invalidation only queued behind the work already pending. Once
  the queue has been carried out, \<open>getURL\<close> of the path returns the new url.
\<close>

theorem C6_fresh_after_settle:
  assumes "path (normalize m) = Some p" and "p \<noteq> []"
    and "queryOne (select_by_path (rows s) p) = Some r"
    and "url (normalize m) = Some u" and "u \<noteq> []"
  shows "fst (putURL k now m s) = Inr (normalize m)
         \<and> cache (snd (putURL k now m s)) = cache s
         \<and> redis (snd (putURL k now m s)) = redis s
         \<and> pending (snd (putURL k now m s)) = pending s @ [RedisDel p]
         \<and> fst (getURL p (settle (snd (putURL k now m s)))) = Some u"
proof -
  let ?s1 = "s\<lparr>rows := update_url now (Some u) (row_id r) (rows s),
               pending := pending s @ [RedisDel p]\<rparr>"
  have put: "putURL k now m s = (Inr (normalize m), ?s1)"
    using assms by (simp add: putURL_path put_path_update invalidate_def)
  have "pending ?s1 = pending s @ RedisDel p # []" by simp
  moreover have "\<forall>t\<in>set []. is_callback t" by simp
  ultimately have st: "redis (settle ?s1) p = None" "cache (settle ?s1) p = None"
    "rows (settle ?s1) = update_url now (Some u) (row_id r) (rows s)"
    using settle_invalidation [of ?s1 "pending s" p "[]"] by simp_all
  have "fst (getURL p (settle ?s1)) = Some u"
    using st queryOne_update [OF assms(3), of now "Some u"] assms(5)
    by (simp add: getURL_miss truthy_def Let_def)
  with put show ?thesis by simp
qed

text \<open>
  Claim C6 as stated fails: the record \<open>a/b\<close> has the url \<open>U1\<close>, held by both caches. The
  write of \<open>U2\<close> updates the record and returns while the Local Cache still holds \<open>U1\<close>, and
  the \<open>getURL\<close> that follows returns \<open>U1\<close>.
\<close>

theorem C6_counterexample:
  "rows (snd (putURL 4 20 (request (Some ''a/b'') (Some ''U2'')) s_ab))
     = [row_ab\<lparr>row_url := Some ''U2'', row_last_update_time := 20\<rparr>]
   \<and> cache (snd (putURL 4 20 (request (Some ''a/b'') (Some ''U2'')) s_ab)) ''a/b'' = Some ''U1''
   \<and> fst (getURL ''a/b'' (snd (putURL 4 20 (request (Some ''a/b'') (Some ''U2'')) s_ab)))
       = Some ''U1''"
  by (simp add: putURL_def normalize_def request_def truthy_def trim_def is_ws_def put_path_def
      select_by_path_def s_ab_def row_ab_def sql_eq_ab queryOne_def update_url_def invalidate_def
      getURL_def Let_def)

text \<open>Claim C6, the amended statement at the same record and write.\<close>

theorem C6_fresh_after_settle_witness:
  "fst (getURL ''a/b'' (settle (snd (putURL 4 20 (request (Some ''a/b'') (Some ''U2'')) s_ab))))
     = Some ''U2''
   \<and> pending (snd (putURL 4 20 (request (Some ''a/b'') (Some ''U2'')) s_ab)) = [RedisDel ''a/b'']"
proof -
  let ?m = "request (Some ''a/b'') (Some ''U2'')"
  have 1: "path (normalize ?m) = Some ''a/b''"
    by (simp add: normalize_def request_def truthy_def trim_def is_ws_def)
  have 2: "''a/b'' \<noteq> []" by simp
  have 3: "queryOne (select_by_path (rows s_ab) ''a/b'') = Some row_ab"
    by (simp add: select_by_path_def s_ab_def row_ab_def sql_eq_ab queryOne_def)
  have 4: "url (normalize ?m) = Some ''U2''"
    by (simp add: normalize_def request_def truthy_def trim_def is_ws_def)
  have 5: "''U2'' \<noteq> []" by simp
  from C6_fresh_after_settle [OF 1 2 3 4 5, of 4 20]
  show ?thesis by (simp add: s_ab_def)
qed

subsection \<open>Claim C7\<close>

text \<open>
  Claim C7. A write whose path matches a record \<open>r\<close> changes \<open>url\<close> and
  \<open>last_update_time\<close> of \<open>r\<close> and nothing else: the table keeps its length, every other row
  stays as it is, and \<open>id\<close>, \<open>short_id\<close>, \<open>path\<close>, \<open>origin_url\<close> and \<open>create_time\<close> of \<open>r\<close>
  stay. Writing \<open>U1\<close> and then \<open>U2\<close> to a path that has a separator and no record adds
  exactly one row, with url \<open>U2\<close> and origin_url \<open>U1\<close> (as normalized), and it is the
  only row of that path.
\<close>

theorem C7_update_in_place:
  "(path (normalize m) = Some p \<and> p \<noteq> [] \<and> queryOne (select_by_path (rows s) p) = Some r
      \<and> distinct (map row_id (rows s)) \<longrightarrow>
      fst (putURL k now m s) = Inr (normalize m)
      \<and> length (rows (snd (putURL k now m s))) = length (rows s)
      \<and> (\<forall>i<length (rows s).
            rows (snd (putURL k now m s)) ! i
              = (if rows s ! i = r
                 then r\<lparr>row_url := url (normalize m), row_last_update_time := now\<rparr>
                 else rows s ! i)))
   \<and> (path (normalize (request P U1)) = Some q \<and> q \<noteq> [] \<and> has_slash q
      \<and> select_by_path (rows s) q = [] \<and> (\<forall>x\<in>set (rows s). row_id x \<noteq> auto_increment s) \<longrightarrow>
      rows (snd (putURL k t2 (request P U2) (snd (putURL k t1 (request P U1) s))))
        = rows s @
            [\<lparr>row_id = auto_increment s, row_short_id = None, row_path = q,
              row_url = url (normalize (request P U2)),
              row_origin_url = url (normalize (request P U1)),
              row_create_time = t1, row_last_update_time = t2\<rparr>]
      \<and> select_by_path
            (rows (snd (putURL k t2 (request P U2) (snd (putURL k t1 (request P U1) s))))) q
        = [\<lparr>row_id = auto_increment s, row_short_id = None, row_path = q,
             row_url = url (normalize (request P U2)),
             row_origin_url = url (normalize (request P U1)),
             row_create_time = t1, row_last_update_time = t2\<rparr>])"
proof (intro conjI impI)
  assume a: "path (normalize m) = Some p \<and> p \<noteq> []
      \<and> queryOne (select_by_path (rows s) p) = Some r \<and> distinct (map row_id (rows s))"
  then have put: "putURL k now m s
      = (Inr (normalize m),
         invalidate (normalize m)
           (s\<lparr>rows := update_url now (url (normalize m)) (row_id r) (rows s)\<rparr>))"
    by (simp add: putURL_path put_path_update)
  have rows: "rows (snd (putURL k now m s))
      = update_url now (url (normalize m)) (row_id r) (rows s)"
    using a by (simp add: put invalidate_def)
  have mem: "r \<in> set (rows s)"
    using a queryOne_Some_mem unfolding select_by_path_def by fast
  show "fst (putURL k now m s) = Inr (normalize m)" by (simp add: put)
  show "length (rows (snd (putURL k now m s))) = length (rows s)"
    by (simp add: rows update_url_def)
  show "\<forall>i<length (rows s).
          rows (snd (putURL k now m s)) ! i
            = (if rows s ! i = r
               then r\<lparr>row_url := url (normalize m), row_last_update_time := now\<rparr>
               else rows s ! i)"
  proof (intro allI impI)
    fix i assume i: "i < length (rows s)"
    then have "rows s ! i \<in> set (rows s)" by simp
    with a mem have "row_id (rows s ! i) = row_id r \<longleftrightarrow> rows s ! i = r"
      using distinct_row_id by blast
    with i show "rows (snd (putURL k now m s)) ! i
            = (if rows s ! i = r
               then r\<lparr>row_url := url (normalize m), row_last_update_time := now\<rparr>
               else rows s ! i)"
      by (simp add: rows update_url_nth)
  qed
next
  assume b: "path (normalize (request P U1)) = Some q \<and> q \<noteq> [] \<and> has_slash q
      \<and> select_by_path (rows s) q = [] \<and> (\<forall>x\<in>set (rows s). row_id x \<noteq> auto_increment s)"
  let ?n1 = "\<lparr>row_id = auto_increment s, row_short_id = None, row_path = q,
               row_url = url (normalize (request P U1)),
               row_origin_url = url (normalize (request P U1)),
               row_create_time = t1, row_last_update_time = t1\<rparr>"
  let ?s1 = "s\<lparr>rows := rows s @ [?n1], auto_increment := Suc (auto_increment s),
               pending := pending s @ [RedisDel q]\<rparr>"
  have p2: "path (normalize (request P U2)) = Some q"
    using b path_normalize_request [of P U2 U1] by simp
  have put1: "putURL k t1 (request P U1) s = (Inr (normalize (request P U1)), ?s1)"
    using b by (simp add: putURL_path put_path_insert invalidate_def)
  have sel: "select_by_path (rows ?s1) q = [?n1]"
    using b by (simp add: select_by_path_def sql_eq_refl)
  then have q1: "queryOne (select_by_path (rows ?s1) q) = Some ?n1"
    by (simp add: queryOne_def)
  have rows2: "rows (snd (putURL k t2 (request P U2) ?s1))
      = update_url t2 (url (normalize (request P U2))) (auto_increment s) (rows s @ [?n1])"
    using b p2 by (simp add: putURL_path put_path_update [OF q1] invalidate_def)
  have upd: "update_url t2 (url (normalize (request P U2))) (auto_increment s) (rows s @ [?n1])
      = rows s @ [?n1\<lparr>row_url := url (normalize (request P U2)), row_last_update_time := t2\<rparr>]"
    using b update_url_fresh [of "rows s" "auto_increment s"]
    by (simp add: update_url_def)
  show "rows (snd (putURL k t2 (request P U2) (snd (putURL k t1 (request P U1) s))))
        = rows s @
            [\<lparr>row_id = auto_increment s, row_short_id = None, row_path = q,
              row_url = url (normalize (request P U2)),
              row_origin_url = url (normalize (request P U1)),
              row_create_time = t1, row_last_update_time = t2\<rparr>]"
    by (simp add: put1 rows2 upd)
  then show "select_by_path
            (rows (snd (putURL k t2 (request P U2) (snd (putURL k t1 (request P U1) s))))) q
        = [\<lparr>row_id = auto_increment s, row_short_id = None, row_path = q,
             row_url = url (normalize (request P U2)),
             row_origin_url = url (normalize (request P U1)),
             row_create_time = t1, row_last_update_time = t2\<rparr>]"
    using b by (simp add: select_by_path_def sql_eq_refl)
qed

text \<open>
  Claim C7 at the record \<open>a/b\<close> written with \<open>U2\<close>, and at the path \<open>c/d\<close> written with
  \<open>U1\<close> at time 10 and \<open>U2\<close> at time 20 on the empty store.
\<close>

theorem C7_update_in_place_witness:
  "rows (snd (putURL 4 20 (request (Some ''a/b'') (Some ''U2'')) s_ab)) ! 0
     = row_ab\<lparr>row_url := Some ''U2'', row_last_update_time := 20\<rparr>
   \<and> length (rows (snd (putURL 4 20 (request (Some ''a/b'') (Some ''U2'')) s_ab))) = 1
   \<and> rows (snd (putURL 4 20 (request (Some ''c/d'') (Some ''U2''))
              (snd (putURL 4 10 (request (Some ''c/d'') (Some ''U1'')) s0))))
     = [\<lparr>row_id = 1, row_short_id = None, row_path = ''c/d'', row_url = Some ''U2'',
          row_origin_url = Some ''U1'', row_create_time = 10, row_last_update_time = 20\<rparr>]"
proof -
  let ?m = "request (Some ''a/b'') (Some ''U2'')"
  have n: "normalize ?m = ?m"
    by (simp add: normalize_def request_def truthy_def trim_def is_ws_def)
  have 1: "path (normalize ?m) = Some ''a/b'' \<and> ''a/b'' \<noteq> []
      \<and> queryOne (select_by_path (rows s_ab) ''a/b'') = Some row_ab
      \<and> distinct (map row_id (rows s_ab))"
    by (simp add: n) (simp add: request_def select_by_path_def s_ab_def row_ab_def sql_eq_ab queryOne_def)
  have n1: "normalize (request (Some ''c/d'') (Some ''U1'')) = request (Some ''c/d'') (Some ''U1'')"
    by (simp add: normalize_def request_def truthy_def trim_def is_ws_def)
  have n2: "normalize (request (Some ''c/d'') (Some ''U2'')) = request (Some ''c/d'') (Some ''U2'')"
    by (simp add: normalize_def request_def truthy_def trim_def is_ws_def)
  have 2: "path (normalize (request (Some ''c/d'') (Some ''U1''))) = Some ''c/d'' \<and> ''c/d'' \<noteq> []
      \<and> has_slash ''c/d'' \<and> select_by_path (rows s0) ''c/d'' = []
      \<and> (\<forall>x\<in>set (rows s0). row_id x \<noteq> auto_increment s0)"
    by (simp add: n1) (simp add: request_def has_slash_def select_by_path_def s0_def)
  have a: "length (rows (snd (putURL 4 20 ?m s_ab))) = length (rows s_ab)
      \<and> (\<forall>i<length (rows s_ab).
            rows (snd (putURL 4 20 ?m s_ab)) ! i
              = (if rows s_ab ! i = row_ab
                 then row_ab\<lparr>row_url := url (normalize ?m), row_last_update_time := 20\<rparr>
                 else rows s_ab ! i))"
    using C7_update_in_place [where m = ?m and p = "''a/b''" and s = s_ab and r = row_ab
        and k = 4 and now = 20] 1 by blast
  have b: "rows (snd (putURL 4 20 (request (Some ''c/d'') (Some ''U2''))
              (snd (putURL 4 10 (request (Some ''c/d'') (Some ''U1'')) s0))))
        = rows s0 @
            [\<lparr>row_id = auto_increment s0, row_short_id = None, row_path = ''c/d'',
              row_url = url (normalize (request (Some ''c/d'') (Some ''U2''))),
              row_origin_url = url (normalize (request (Some ''c/d'') (Some ''U1''))),
              row_create_time = 10, row_last_update_time = 20\<rparr>]"
    using C7_update_in_place [where P = "Some ''c/d''" and ?U1.0 = "Some ''U1''"
        and ?U2.0 = "Some ''U2''" and q = "''c/d''" and s = s0 and k = 4 and ?t1.0 = 10
        and ?t2.0 = 20] 2 by blast
  have a0: "rows (snd (putURL 4 20 ?m s_ab)) ! 0
      = row_ab\<lparr>row_url := url (normalize ?m), row_last_update_time := 20\<rparr>"
    using a by (simp add: s_ab_def)
  show ?thesis
    using a a0 b by (simp add: n n1 n2) (simp add: request_def s0_def s_ab_def)
qed

subsection \<open>Claim C8\<close>

text \<open>
  Claim C8, as the code has it. A truthy path becomes \<open>trim (strip_slash p)\<close>: one slash is
  removed at position 0 first, white space is trimmed afterwards, so the result has no
  surrounding white space but may still start with a slash. A truthy url is trimmed. A
  falsy field is left as it is. \<open>putURL\<close> sees the request only through \<open>normalize\<close>.
\<close>

theorem C8_normalize:
  "(\<forall>p. path m = Some p \<and> p \<noteq> [] \<longrightarrow>
        path (normalize m) = Some (trim (strip_slash p)) \<and> no_outer_ws (trim (strip_slash p)))
   \<and> (\<forall>u. url m = Some u \<and> u \<noteq> [] \<longrightarrow>
        url (normalize m) = Some (trim u) \<and> no_outer_ws (trim u))
   \<and> (\<not> truthy (path m) \<longrightarrow> path (normalize m) = path m)
   \<and> (\<not> truthy (url m) \<longrightarrow> url (normalize m) = url m)
   \<and> (normalize m = normalize m' \<longrightarrow> putURL k now m s = putURL k now m' s)"
  by (auto simp: normalize_def truthy_def Let_def no_outer_ws_trim putURL_def split: option.splits)

text \<open>
  Claim C8 as stated fails: the path \<open>" /abc"\<close> starts with a space, so no slash is
  removed, and trimming leaves \<open>"/abc"\<close>, not \<open>"abc"\<close>.
\<close>

theorem C8_counterexample:
  "path (normalize (request (Some '' /abc'') None)) = Some ''/abc''
   \<and> path (normalize (request (Some '' /abc'') None)) \<noteq> Some ''abc''"
  by (simp add: normalize_def request_def truthy_def trim_def is_ws_def)

text \<open>Claim C8, the amended statement at \<open>"/a/b "\<close> with url \<open>" U "\<close>, and at an empty request.\<close>

theorem C8_normalize_witness:
  "path (normalize (request (Some ''/a/b '') (Some '' U ''))) = Some ''a/b''
   \<and> url (normalize (request (Some ''/a/b '') (Some '' U ''))) = Some ''U''
   \<and> no_outer_ws ''a/b'' \<and> no_outer_ws ''U''
   \<and> \<not> truthy (path (request None None))
   \<and> path (normalize (request None None)) = None
   \<and> url (normalize (request None None)) = None
   \<and> normalize (request (Some ''/a/b '') (Some '' U ''))
       = normalize (request (Some ''a/b'') (Some ''U''))
   \<and> putURL 4 10 (request (Some ''/a/b '') (Some '' U '')) s0
       = putURL 4 10 (request (Some ''a/b'') (Some ''U'')) s0"
  using C8_normalize [of "request (Some ''/a/b '') (Some '' U '')"
          "request (Some ''a/b'') (Some ''U'')" 4 10 s0]
        C8_normalize [of "request None None" "request None None" 4 10 s0]
  by (simp add: request_def trim_def is_ws_def truthy_def normalize_def)

subsection \<open>Claim C9\<close>

text \<open>
  Claim C9. When the record of a path has the empty string as url and neither cache holds
  a non-empty value for the path (an empty string in a cache counts as a miss), \<open>getURL\<close>
  returns the empty string, which is falsy, populates nothing, and \<open>get\<close> answers 404, as
  it does for a path without a record.
\<close>

theorem C9_empty_url_is_absent:
  assumes "queryOne (select_by_path (rows s) p) = Some m" and "row_url m = Some []"
    and "\<not> truthy (cache s p)" and "\<not> truthy (redis s p)"
    and "queryOne (select_by_path (rows t) p) = None"
    and "\<not> truthy (cache t p)" and "\<not> truthy (redis t p)"
  shows "getURL p s = (Some [], s) \<and> \<not> truthy (fst (getURL p s))
         \<and> get p s = (NotFound404, s) \<and> get p t = (NotFound404, t)"
  using assms by (auto simp: getURL_miss get_def truthy_def split: option.splits)

text \<open>
  Claim C9 at a record \<open>a/b\<close> with an empty url, the Local Cache holding the empty string
  for it, and at the empty store.
\<close>

theorem C9_empty_url_is_absent_witness:
  "getURL ''a/b'' s_e = (Some [], s_e) \<and> get ''a/b'' s_e = (NotFound404, s_e)
   \<and> get ''a/b'' s0 = (NotFound404, s0)"
proof -
  have 1: "queryOne (select_by_path (rows s_e) ''a/b'') = Some row_e"
    by (simp add: select_by_path_def s_e_def row_e_def sql_eq_ab queryOne_def)
  have 2: "row_url row_e = Some []" by (simp add: row_e_def)
  have 3: "\<not> truthy (cache s_e ''a/b'')" by (simp add: s_e_def truthy_def)
  have 4: "\<not> truthy (redis s_e ''a/b'')" by (simp add: s_e_def truthy_def)
  have 5: "queryOne (select_by_path (rows s0) ''a/b'') = None"
    by (simp add: select_by_path_def s0_def queryOne_def)
  have 6: "\<not> truthy (cache s0 ''a/b'')" by (simp add: s0_def truthy_def)
  have 7: "\<not> truthy (redis s0 ''a/b'')" by (simp add: s0_def truthy_def)
  from C9_empty_url_is_absent [OF 1 2 3 4 5 6 7] show ?thesis by simp
qed

subsection \<open>Claim C10\<close>

text \<open>
  Claim C10, as the code has it. A write whose path matches a record, with a url that is
  absent or holds nothing but white space, runs the update. An absent url stores \<open>NULL\<close>;
  a url of white space (or the empty string) stores the empty string.
\<close>

theorem C10_update_without_url:
  assumes "path (normalize m) = Some p" and "p \<noteq> []"
    and "queryOne (select_by_path (rows s) p) = Some r"
    and "url m = None \<or> (\<exists>u. url m = Some u \<and> trim u = [])"
  shows "\<exists>s'. putURL k now m s = (Inr (normalize m), s')
           \<and> rows s' = update_url now (case url m of None \<Rightarrow> None | Some u \<Rightarrow> Some [])
                          (row_id r) (rows s)
           \<and> r\<lparr>row_url := (case url m of None \<Rightarrow> None | Some u \<Rightarrow> Some []),
                 row_last_update_time := now\<rparr> \<in> set (rows s')"
proof -
  have mem: "r \<in> set (rows s)"
    using assms(3) queryOne_Some_mem unfolding select_by_path_def by fast
  have u: "url (normalize m) = (case url m of None \<Rightarrow> None | Some u \<Rightarrow> Some [])"
    using assms(4) by (rule normalize_url_empty)
  show ?thesis
    using assms(1,2) mem u update_url_mem [OF mem]
    by (simp add: putURL_path put_path_update [OF assms(3)] invalidate_def)
qed

text \<open>
  Claim C10 as stated fails for a url of white space: it is truthy, so it is trimmed, and
  the record's url becomes the empty string, not \<open>NULL\<close>.
\<close>

theorem C10_counterexample:
  "rows (snd (putURL 4 20 (request (Some ''a/b'') (Some ''  '')) s_ab))
     = [row_ab\<lparr>row_url := Some [], row_last_update_time := 20\<rparr>]
   \<and> Some [] \<noteq> (None :: string option)"
  by (simp add: putURL_def normalize_def request_def truthy_def trim_def is_ws_def put_path_def
      select_by_path_def s_ab_def row_ab_def sql_eq_ab queryOne_def update_url_def invalidate_def)

text \<open>Claim C10, the amended statement for the record \<open>a/b\<close> and an absent url.\<close>

theorem C10_update_without_url_witness:
  "rows (snd (putURL 4 20 (request (Some ''a/b'') None) s_ab))
     = [row_ab\<lparr>row_url := None, row_last_update_time := 20\<rparr>]"
proof -
  let ?m = "request (Some ''a/b'') None"
  have 1: "path (normalize ?m) = Some ''a/b''"
    by (simp add: normalize_def request_def truthy_def trim_def is_ws_def)
  have 2: "''a/b'' \<noteq> []" by simp
  have 3: "queryOne (select_by_path (rows s_ab) ''a/b'') = Some row_ab"
    by (simp add: select_by_path_def s_ab_def row_ab_def sql_eq_ab queryOne_def)
  have 4: "url ?m = None \<or> (\<exists>u. url ?m = Some u \<and> trim u = [])"
    by (simp add: request_def)
  from C10_update_without_url [OF 1 2 3 4, of 4 20]
  show ?thesis by (auto simp: request_def update_url_def s_ab_def row_ab_def)
qed

end
